theory Spec2Isabelle
  imports Complex_Main
begin

section \<open>JavaScript values and strings\<close>

text \<open>
  The client is JavaScript. A string is modelled as a \<^typ>\<open>string\<close>, one \<^typ>\<open>char\<close> per
  code unit (code units below 256). The values a caller can hand to the validators and
  to \<open>sanitizeString\<close> are \<open>undefined\<close>, \<open>null\<close>, booleans, numbers and strings.

  A JavaScript number is an IEEE 754 double. The numbers modelled are \<open>NaN\<close>, the two
  infinities and the integral doubles; numbers with a fractional part are not covered.
  \<open>Finite i\<close> stands for the value of the decimal literal \<open>i\<close>, that is the double nearest to
  the integer \<open>i\<close> (\<open>toDouble\<close> below); it is \<open>i\<close> itself whenever \<open>i\<close> is a double, in particular
  for every magnitude up to \<open>2^53\<close>. Negative zero is identified with zero: the code
  modelled only prints it (\<open>0\<close>), compares it with \<open>1\<close> and tests its truthiness.
\<close>

datatype number = NotANumber | PlusInfinity | MinusInfinity | Finite int

datatype jsval = JUndefined | JNull | JBool bool | JNum number | JStr string

text \<open>
  Rounding of a natural number to a double: numbers below \<open>2^53\<close> are exact, a larger one
  keeps its 53 leading bits, rounded to nearest, ties to the even significand. A result
  of \<open>2^1024\<close> or more is an overflow and gives an infinity.
\<close>

function bitLength :: "nat \<Rightarrow> nat" where
  "bitLength n = (if n = 0 then 0 else Suc (bitLength (n div 2)))"
  by pat_completeness auto
termination
  by (relation "measure id") auto

declare bitLength.simps [simp del]

definition roundNat :: "nat \<Rightarrow> nat" where
  "roundNat v =
     (if v < 2 ^ 53 then v
      else let e = bitLength v - 53;
               q = v div 2 ^ e;
               r = v mod 2 ^ e;
               half = 2 ^ (e - 1)
           in (if half < r \<or> (r = half \<and> odd q) then q + 1 else q) * 2 ^ e)"

definition toDouble :: "int \<Rightarrow> number" where
  "toDouble i =
     (let m = roundNat (nat \<bar>i\<bar>)
      in if 2 ^ 1024 \<le> m then (if i < 0 then MinusInfinity else PlusInfinity)
         else Finite (if i < 0 then - int m else int m))"

fun normal :: "number \<Rightarrow> number" where
  "normal (Finite i) = toDouble i"
| "normal x = x"

function showNat :: "nat \<Rightarrow> string" where
  "showNat n = (if n < 10 then [''0123456789'' ! n]
                else showNat (n div 10) @ [''0123456789'' ! (n mod 10)])"
  by pat_completeness auto
termination
  by (relation "measure id") auto

declare showNat.simps [simp del]

definition showInt :: "int \<Rightarrow> string" where
  "showInt i = (if i < 0 then CHR ''-'' # showNat (nat (- i)) else showNat (nat i))"

text \<open>
  \<open>Number::toString\<close> of ECMAScript for an integral double \<open>x\<close>. The digits are those of
  the decimal number with the fewest significant digits that still rounds to \<open>x\<close>
  (\<open>shortestDecimal\<close>: with \<open>k\<close> significant digits the candidates are \<open>x\<close> cut down and
  \<open>x\<close> cut up to \<open>k\<close> digits; of two candidates the closer one is taken, the one with the even
  last digit on a tie). Below \<open>2^53\<close> that number is \<open>x\<close> itself. The digits are written in
  plain decimal notation below \<open>10^21\<close> and in the form \<open>d.ddde+n\<close> from there on.
\<close>

definition candidate :: "nat \<Rightarrow> nat \<Rightarrow> nat \<Rightarrow> nat option" where
  "candidate x L k =
     (let p = 10 ^ (L - k);
          lo = (x div p) * p;
          hi = lo + p
      in if roundNat lo = x \<and> roundNat hi = x
         then Some (if x - lo < hi - x then lo
                    else if hi - x < x - lo then hi
                    else if even (x div p) then lo else hi)
         else if roundNat lo = x then Some lo
         else if roundNat hi = x then Some hi
         else None)"

fun firstSome :: "(nat \<Rightarrow> 'a option) \<Rightarrow> nat list \<Rightarrow> 'a option" where
  "firstSome f [] = None"
| "firstSome f (k # ks) = (case f k of Some v \<Rightarrow> Some v | None \<Rightarrow> firstSome f ks)"

definition shortestDecimal :: "nat \<Rightarrow> nat" where
  "shortestDecimal x =
     (let L = length (showNat x)
      in case firstSome (candidate x L) [1..<Suc L] of Some v \<Rightarrow> v | None \<Rightarrow> x)"

definition stripZeros :: "string \<Rightarrow> string" where
  "stripZeros d = rev (dropWhile (\<lambda>c. c = CHR ''0'') (rev d))"

definition positiveToString :: "nat \<Rightarrow> string" where
  "positiveToString x =
     (if x < 2 ^ 53 then showNat x
      else let v = shortestDecimal x;
               d = showNat v
           in if v < 10 ^ 21 then d
              else let s = stripZeros d;
                       e = ''e+'' @ showNat (length d - 1)
                   in if length s = 1 then s @ e else hd s # CHR ''.'' # tl s @ e)"

definition numberToString :: "number \<Rightarrow> string" where
  "numberToString x =
     (case normal x of
        NotANumber \<Rightarrow> ''NaN''
      | PlusInfinity \<Rightarrow> ''Infinity''
      | MinusInfinity \<Rightarrow> ''-Infinity''
      | Finite i \<Rightarrow>
          if i < 0 then CHR ''-'' # positiveToString (nat (- i)) else positiveToString (nat i))"

text \<open>\<open>String(v)\<close>, which is also what a template literal \<open>`${v}`\<close> inserts.\<close>

fun String_js :: "jsval \<Rightarrow> string" where
  "String_js JUndefined = ''undefined''"
| "String_js JNull = ''null''"
| "String_js (JBool b) = (if b then ''true'' else ''false'')"
| "String_js (JNum n) = numberToString n"
| "String_js (JStr s) = s"

text \<open>\<open>s.replace(/c/g, r)\<close> for a one-character pattern \<open>c\<close>: every occurrence, left to right.\<close>

definition replaceAll :: "char \<Rightarrow> string \<Rightarrow> string \<Rightarrow> string" where
  "replaceAll c r s = concat (map (\<lambda>x. if x = c then r else [x]) s)"

section \<open>lib/api.js: sanitizeString\<close>

text \<open>
  \<^verbatim>\<open>
  function sanitizeString(str) {
    if (str === null || str === undefined) return '';
    return String(str)
      .replace(/\\/g, '\\\\')
      .replace(/"/g, '\\"')
      .replace(/\n/g, '\\n')
      .replace(/\r/g, '\\r')
      .replace(/\t/g, '\\t');
  }
  \<close>
  Backslash is \<open>CHR 0x5C\<close>, the double quote \<open>CHR 0x22\<close>, newline \<open>CHR 0x0A\<close>, carriage
  return \<open>CHR 0x0D\<close> and tab \<open>CHR 0x09\<close>.
\<close>

definition sanitizeString :: "jsval \<Rightarrow> string" where
  "sanitizeString str =
     (if str = JNull \<or> str = JUndefined then []
      else replaceAll (CHR 0x09) [CHR 0x5C, CHR ''t'']
            (replaceAll (CHR 0x0D) [CHR 0x5C, CHR ''r'']
              (replaceAll (CHR 0x0A) [CHR 0x5C, CHR ''n'']
                (replaceAll (CHR 0x22) [CHR 0x5C, CHR 0x22]
                  (replaceAll (CHR 0x5C) [CHR 0x5C, CHR 0x5C] (String_js str))))))"

text \<open>The net effect of the five passes on one character of the input.\<close>

definition escapeChar :: "char \<Rightarrow> string" where
  "escapeChar c =
     (if c = CHR 0x5C then [CHR 0x5C, CHR 0x5C]
      else if c = CHR 0x22 then [CHR 0x5C, CHR 0x22]
      else if c = CHR 0x0A then [CHR 0x5C, CHR ''n'']
      else if c = CHR 0x0D then [CHR 0x5C, CHR ''r'']
      else if c = CHR 0x09 then [CHR 0x5C, CHR ''t'']
      else [c])"

section \<open>The remote's answers and the errors\<close>

text \<open>
  What the remote sends back, as the queries ask for it. The tags of a single page arrive
  as objects \<open>{tag}\<close>; \<open>getPage\<close> replaces them by their names, so the record is
  parametrised by the type of a tag. Fields that \<open>updatePage\<close> tests with \<open>??\<close> are optional.
\<close>

record tag_rel =
  tag :: string

record page_stub =
  stub_id :: int
  stub_path :: string
  stub_title :: string
  stub_locale :: string
  stub_isPublished :: bool
  stub_tags :: "string list option"

record 't page =
  pg_id :: int
  pg_path :: string
  pg_title :: "string option"
  pg_description :: "string option"
  pg_content :: "string option"
  pg_render :: string
  pg_locale :: string
  pg_createdAt :: string
  pg_updatedAt :: string
  pg_authorName :: string
  pg_tags :: "'t list option"
  pg_isPublished :: "bool option"
  pg_isPrivate :: "bool option"
  pg_children :: "page_stub list option"

text \<open>The \<open>page\<close> object a create or update mutation returns, and the \<open>responseResult\<close>.\<close>

record page_ref =
  ref_id :: int
  ref_path :: string
  ref_title :: string
  ref_updatedAt :: "string option"

record response_result =
  succeeded :: bool
  errorCode :: "int option"
  rr_message :: "string option"

record mutation_result =
  responseResult :: "response_result option"
  result_page :: "page_ref option"

text \<open>
  The \<open>data\<close> of an envelope, by its shape: \<open>{pages: {single: ...}}\<close> and so on. A chain
  such as \<open>data?.pages?.single\<close> is \<open>undefined\<close> on every other shape.
\<close>

datatype data =
    DataSingle "tag_rel page option"
  | DataSingleByPath "tag_rel page option"
  | DataList "page_stub list option"
  | DataCreate mutation_result
  | DataUpdate mutation_result
  | DataMove mutation_result
  | DataDelete mutation_result
  | DataDeleteAsset mutation_result
  | DataRestore mutation_result

text \<open>
  The decoded body of a response, \<open>response.data\<close>, is the envelope with its optional
  \<open>errors\<close> and \<open>data\<close>; an entry of \<open>errors\<close> has a \<open>message\<close>. The HTTP client resolves
  with a response, or rejects with an error of its own: a failure of the transport, with no
  response, or a status outside 2xx, with the response in \<open>error.response\<close>.
\<close>

record gql_entry =
  entry_message :: "string option"

record envelope =
  env_errors :: "gql_entry list option"
  env_data :: "data option"

record http_response =
  status :: nat
  response_data :: "envelope option"

record axios_error =
  cause :: string
  error_response :: "http_response option"

datatype http_result = Resolved http_response | Rejected axios_error

text \<open>
  The code raises \<open>new Error(message)\<close>, a \<open>GraphQLError\<close> built from the entries of an
  envelope, or lets the HTTP client's error through. Each \<open>throw\<close> is an \<open>Inl\<close> result:
  \<open>Error m\<close> is \<open>new Error(m)\<close>; \<open>GraphQLError m es\<close> is a \<open>GraphQLError\<close> with message \<open>m\<close>
  and \<open>errors\<close> field \<open>es\<close>; \<open>AxiosError e\<close> is the HTTP client's error, passed on unchanged.
\<close>

datatype error = Error string | GraphQLError string "gql_entry list" | AxiosError axios_error

section \<open>lib/api.js: validateId and validatePath\<close>

text \<open>
  \<open>parseInt(id, 10)\<close>: the string form of the argument, leading white space skipped, an
  optional sign, then the longest run of decimal digits; \<open>NaN\<close> when that run is empty,
  and otherwise the number that the digits denote, which is a double: the integer is
  rounded to the nearest one (as V8 does; ECMAScript allows an implementation to replace
  the digits after the twentieth by zeros first). White space below code unit 256 is tab,
  line feed, vertical tab, form feed, carriage return, space and the no-break space.
\<close>

definition isWhiteSpace :: "char \<Rightarrow> bool" where
  "isWhiteSpace c \<longleftrightarrow>
     c \<in> set [CHR 0x09, CHR 0x0A, CHR 0x0B, CHR 0x0C, CHR 0x0D, CHR 0x20, CHR 0xA0]"

definition isDigit :: "char \<Rightarrow> bool" where
  "isDigit c \<longleftrightarrow> c \<in> set ''0123456789''"

definition digitVal :: "char \<Rightarrow> nat" where
  "digitVal c = of_char c - 48"

definition digitsVal :: "string \<Rightarrow> nat" where
  "digitsVal ds = foldl (\<lambda>a c. 10 * a + digitVal c) 0 ds"

definition parseInt10 :: "string \<Rightarrow> number" where
  "parseInt10 inputString =
     (let S = dropWhile isWhiteSpace inputString;
          sign = (case S of c # _ \<Rightarrow> if c = CHR ''-'' then - 1 else 1 | [] \<Rightarrow> (1::int));
          S' = (case S of c # r \<Rightarrow> if c = CHR ''+'' \<or> c = CHR ''-'' then r else S | [] \<Rightarrow> S);
          Z = takeWhile isDigit S'
      in if Z = [] then NotANumber else toDouble (sign * int (digitsVal Z)))"

text \<open>
  \<^verbatim>\<open>
  function validateId(id) {
    const num = parseInt(id, 10);
    if (isNaN(num) || num < 1) {
      throw new Error(`Invalid ID: ${id}`);
    }
    return num;
  }
  \<close>
\<close>

fun isNaN :: "number \<Rightarrow> bool" where
  "isNaN NotANumber = True"
| "isNaN _ = False"

text \<open>\<open>x < 1\<close> on numbers; every comparison with \<open>NaN\<close> is false.\<close>

fun lessThanOne :: "number \<Rightarrow> bool" where
  "lessThanOne (Finite i) = (i < 1)"
| "lessThanOne MinusInfinity = True"
| "lessThanOne _ = False"

definition validateId :: "jsval \<Rightarrow> error + number" where
  "validateId id' =
     (let num = parseInt10 (String_js id')
      in if isNaN num \<or> lessThanOne num
         then Inl (Error (''Invalid ID: '' @ String_js id'))
         else Inr num)"

text \<open>Truthiness of a value, and \<open>typeof v === 'string'\<close>.\<close>

fun truthy :: "jsval \<Rightarrow> bool" where
  "truthy JUndefined = False"
| "truthy JNull = False"
| "truthy (JBool b) = b"
| "truthy (JNum n) = (n \<noteq> NotANumber \<and> n \<noteq> Finite 0)"
| "truthy (JStr s) = (s \<noteq> [])"

fun isString :: "jsval \<Rightarrow> bool" where
  "isString (JStr s) = True"
| "isString _ = False"

text \<open>
  \<^verbatim>\<open>
  function validatePath(path) {
    if (!path || typeof path !== 'string') {
      throw new Error('Path is required');
    }
    const cleanPath = path.startsWith('/') ? path.slice(1) : path;
    if (/[<>:"|?*]/.test(cleanPath)) {
      throw new Error(`Invalid characters in path: ${path}`);
    }
    return cleanPath;
  }
  \<close>
\<close>

definition invalidPathChars :: "char list" where
  "invalidPathChars = [CHR ''<'', CHR ''>'', CHR '':'', CHR 0x22, CHR ''|'', CHR ''?'', CHR ''*'']"

definition cleanPath :: "string \<Rightarrow> string" where
  "cleanPath path = (case path of c # r \<Rightarrow> if c = CHR ''/'' then r else path | [] \<Rightarrow> path)"

definition validatePath :: "jsval \<Rightarrow> error + string" where
  "validatePath path =
     (if \<not> truthy path \<or> \<not> isString path then Inl (Error ''Path is required'')
      else if list_ex (\<lambda>c. c \<in> set invalidPathChars) (cleanPath (String_js path))
           then Inl (Error (''Invalid characters in path: '' @ String_js path))
      else Inr (cleanPath (String_js path)))"

section \<open>lib/helpers.js: diffStrings\<close>

text \<open>\<open>s.split(c)\<close> for a one-character separator: never empty, \<open>''.split(c)\<close> is \<open>['']\<close>.\<close>

fun splitOn :: "char \<Rightarrow> string \<Rightarrow> string list" where
  "splitOn c [] = [[]]"
| "splitOn c (x # xs) =
     (if x = c then [] # splitOn c xs
      else (case splitOn c xs of l # ls \<Rightarrow> (x # l) # ls | [] \<Rightarrow> [[x]]))"

datatype diff_type = Unchanged | Add | Remove

record diff_entry =
  entry_type :: diff_type
  lineNum :: nat
  content :: string







section \<open>lib/api.js: the GraphQL client\<close>

text \<open>
  The remote is outside the client: \<open>post\<close> stands for \<open>getClient().post('/graphql', ...)\<close>,
  a function of the operation sent and of the state of the world \<open>'w\<close>, giving the outcome
  of the HTTP exchange and the new state. An \<open>async\<close> function is then a function of the
  world that returns a thrown error (\<open>Inl\<close>) or a value (\<open>Inr\<close>) together with the world it
  leaves; \<open>await\<close> and the propagation of exceptions are \<open>io_bind\<close>.
\<close>

type_synonym ('a, 'w) io = "'w \<Rightarrow> (error + 'a) \<times> 'w"

definition io_return :: "'a \<Rightarrow> ('a, 'w) io" where
  "io_return a w = (Inr a, w)"

definition io_throw :: "error \<Rightarrow> ('a, 'w) io" where
  "io_throw e w = (Inl e, w)"

definition io_bind :: "('a, 'w) io \<Rightarrow> ('a \<Rightarrow> ('b, 'w) io) \<Rightarrow> ('b, 'w) io" where
  "io_bind m f w = (case m w of (Inl e, w') \<Rightarrow> (Inl e, w') | (Inr a, w') \<Rightarrow> f a w')"

text \<open>The result of a synchronous function that may throw, inside an \<open>async\<close> one.\<close>

definition io_lift :: "error + 'a \<Rightarrow> ('a, 'w) io" where
  "io_lift r w = (r, w)"

text \<open>\<open>xs.join(sep)\<close>.\<close>

fun join :: "string \<Rightarrow> string list \<Rightarrow> string" where
  "join sep [] = []"
| "join sep [x] = x"
| "join sep (x # y # ys) = x @ sep @ join sep (y # ys)"

text \<open>
  \<^verbatim>\<open>
  class GraphQLError extends Error {
    constructor(errors) {
      const messages = errors.map(e => e.message).join('; ');
      super(messages);
      this.name = 'GraphQLError';
      this.errors = errors;
    }
  }
  \<close>
  \<open>join\<close> prints an \<open>undefined\<close> element as the empty string.
\<close>

definition newGraphQLError :: "gql_entry list \<Rightarrow> error" where
  "newGraphQLError errors =
     GraphQLError
       (join ''; '' (map (\<lambda>e. case entry_message e of Some m \<Rightarrow> m | None \<Rightarrow> []) errors))
       errors"

text \<open>
  The response interceptor installed by \<open>getClient\<close>:
  \<^verbatim>\<open>
    response => response,
    error => {
      if (error.response?.data?.errors) {
        throw new GraphQLError(error.response.data.errors);
      }
      throw error;
    }
  \<close>
  An array is truthy, the empty one too.
\<close>

definition interceptor :: "http_result \<Rightarrow> error + http_response" where
  "interceptor r =
     (case r of
        Resolved response \<Rightarrow> Inr response
      | Rejected err \<Rightarrow>
          (case error_response err of
             Some r' \<Rightarrow>
               (case response_data r' of
                  Some env \<Rightarrow>
                    (case env_errors env of
                       Some errors \<Rightarrow> Inl (newGraphQLError errors)
                     | None \<Rightarrow> Inl (AxiosError err))
                | None \<Rightarrow> Inl (AxiosError err))
           | None \<Rightarrow> Inl (AxiosError err)))"

text \<open>
  \<^verbatim>\<open>
  async function graphql(query) {
    const response = await getClient().post('/graphql', { query });
    if (response.data?.errors && response.data.errors.length > 0) {
      throw new GraphQLError(response.data.errors);
    }
    return response.data?.data;
  }
  \<close>
\<close>

definition unwrap :: "http_response \<Rightarrow> error + data option" where
  "unwrap response =
     (case response_data response of
        None \<Rightarrow> Inr None
      | Some env \<Rightarrow>
          (case env_errors env of
             Some errors \<Rightarrow>
               if length errors > 0 then Inl (newGraphQLError errors) else Inr (env_data env)
           | None \<Rightarrow> Inr (env_data env)))"

definition graphql :: "('q \<Rightarrow> 'w \<Rightarrow> http_result \<times> 'w) \<Rightarrow> 'q \<Rightarrow> (data option, 'w) io" where
  "graphql post query w =
     (case post query w of
        (r, w') \<Rightarrow>
          (case interceptor r of
             Inl e \<Rightarrow> (Inl e, w')
           | Inr response \<Rightarrow> (unwrap response, w')))"

text \<open>
  The surfaced message of a \<open>GraphQLError\<close> as its description has it: the messages of
  the entries in order, the first as it is and each later one after a semicolon and a space.
\<close>

definition entryMessages :: "gql_entry list \<Rightarrow> string" where
  "entryMessages es =
     (case map (\<lambda>e. case entry_message e of Some m \<Rightarrow> m | None \<Rightarrow> []) es of
        [] \<Rightarrow> []
      | m # ms \<Rightarrow> foldl (\<lambda>acc x. acc @ ''; '' @ x) m ms)"

section \<open>lib/api.js: pages and mutations\<close>

text \<open>
  The values interpolated into a mutation's text: a field written \<open>${JSON.stringify(x)}\<close>
  holds \<open>x\<close>, a field written \<open>"${safe}"\<close> holds the sanitized string, a boolean is held as
  it is, and a field written \<open>${validId}\<close> holds the number, whose text in the operation is
  \<open>numberToString validId\<close>. \<open>None\<close> is \<open>undefined\<close>.
\<close>

record create_args =
  ca_content :: string
  ca_description :: string
  ca_editor :: string
  ca_isPrivate :: bool
  ca_isPublished :: bool
  ca_locale :: string
  ca_path :: string
  ca_tags :: "string list"
  ca_title :: string

record update_args =
  ua_id :: number
  ua_content :: "string option"
  ua_description :: string
  ua_isPublished :: "bool option"
  ua_tags :: "string list"
  ua_title :: "string option"

text \<open>The operations the functions below send, one constructor per template.\<close>

datatype request =
    QuerySingle number
  | QuerySingleByPath string string
  | QueryChildList
  | QueryStatsList
  | MutationCreate create_args
  | MutationUpdate update_args
  | MutationMove number string string
  | MutationDelete number
  | MutationDeleteAsset number
  | MutationRestore number number

definition pages_single :: "data option \<Rightarrow> tag_rel page option" where
  "pages_single d = (case d of Some (DataSingle p) \<Rightarrow> p | _ \<Rightarrow> None)"

definition pages_singleByPath :: "data option \<Rightarrow> tag_rel page option" where
  "pages_singleByPath d = (case d of Some (DataSingleByPath p) \<Rightarrow> p | _ \<Rightarrow> None)"

definition pages_list :: "data option \<Rightarrow> page_stub list option" where
  "pages_list d = (case d of Some (DataList ps) \<Rightarrow> ps | _ \<Rightarrow> None)"

definition pages_create :: "data option \<Rightarrow> mutation_result option" where
  "pages_create d = (case d of Some (DataCreate r) \<Rightarrow> Some r | _ \<Rightarrow> None)"

definition pages_update :: "data option \<Rightarrow> mutation_result option" where
  "pages_update d = (case d of Some (DataUpdate r) \<Rightarrow> Some r | _ \<Rightarrow> None)"

definition pages_move :: "data option \<Rightarrow> mutation_result option" where
  "pages_move d = (case d of Some (DataMove r) \<Rightarrow> Some r | _ \<Rightarrow> None)"

definition pages_delete :: "data option \<Rightarrow> mutation_result option" where
  "pages_delete d = (case d of Some (DataDelete r) \<Rightarrow> Some r | _ \<Rightarrow> None)"

definition assets_deleteAsset :: "data option \<Rightarrow> mutation_result option" where
  "assets_deleteAsset d = (case d of Some (DataDeleteAsset r) \<Rightarrow> Some r | _ \<Rightarrow> None)"

definition pages_restore :: "data option \<Rightarrow> mutation_result option" where
  "pages_restore d = (case d of Some (DataRestore r) \<Rightarrow> Some r | _ \<Rightarrow> None)"

type_synonym 'w remote = "request \<Rightarrow> 'w \<Rightarrow> http_result \<times> 'w"

text \<open>
  The check every mutation makes on its result:
  \<^verbatim>\<open>
  if (!result?.responseResult?.succeeded) {
    throw new Error(result?.responseResult?.message || 'Failed to ...');
  }
  \<close>
  \<open>a || b\<close> on an optional string takes \<open>b\<close> when \<open>a\<close> is absent or empty.
\<close>

definition orElse :: "string option \<Rightarrow> string \<Rightarrow> string" where
  "orElse a b = (case a of Some s \<Rightarrow> if s \<noteq> [] then s else b | None \<Rightarrow> b)"

definition result_succeeded :: "mutation_result option \<Rightarrow> bool" where
  "result_succeeded result =
     (case result of
        Some r \<Rightarrow> (case responseResult r of Some rr \<Rightarrow> succeeded rr | None \<Rightarrow> False)
      | None \<Rightarrow> False)"

definition result_message :: "mutation_result option \<Rightarrow> string option" where
  "result_message result =
     (case result of
        Some r \<Rightarrow> (case responseResult r of Some rr \<Rightarrow> rr_message rr | None \<Rightarrow> None)
      | None \<Rightarrow> None)"

text \<open>The configuration \<open>loadConfig()\<close> returns, and a destructuring default.\<close>

record config =
  defaultLocale :: "string option"
  defaultEditor :: "string option"

definition dflt :: "'a option \<Rightarrow> 'a \<Rightarrow> 'a" where
  "dflt v d = (case v of Some x \<Rightarrow> x | None \<Rightarrow> d)"

text \<open>\<open>a ?? b\<close>.\<close>

definition nullish :: "'a option \<Rightarrow> 'a option \<Rightarrow> 'a option" where
  "nullish a b = (case a of Some x \<Rightarrow> Some x | None \<Rightarrow> b)"

text \<open>
  \<open>getPage(idOrPath, options)\<close>: by id when \<open>idOrPath\<close> is a number, by path otherwise; the
  tags are flattened, an absent page is an error, and the children, when asked for, are
  filtered out of a second query by
  \<open>p.path.startsWith(page.path + '/') && p.id !== page.id\<close>.
\<close>

record getPage_options =
  gp_withChildren :: "bool option"
  gp_locale :: "string option"

definition flattenTags :: "tag_rel page \<Rightarrow> string page" where
  "flattenTags p =
     \<lparr>pg_id = pg_id p, pg_path = pg_path p, pg_title = pg_title p,
      pg_description = pg_description p, pg_content = pg_content p, pg_render = pg_render p,
      pg_locale = pg_locale p, pg_createdAt = pg_createdAt p, pg_updatedAt = pg_updatedAt p,
      pg_authorName = pg_authorName p, pg_tags = map_option (map tag) (pg_tags p),
      pg_isPublished = pg_isPublished p, pg_isPrivate = pg_isPrivate p,
      pg_children = pg_children p\<rparr>"

definition startsWith :: "string \<Rightarrow> string \<Rightarrow> bool" where
  "startsWith s pre \<longleftrightarrow> take (length pre) s = pre"

definition isChildOf :: "string page \<Rightarrow> page_stub \<Rightarrow> bool" where
  "isChildOf page p \<longleftrightarrow> startsWith (stub_path p) (pg_path page @ ''/'') \<and> stub_id p \<noteq> pg_id page"

definition getPage :: "config \<Rightarrow> 'w remote \<Rightarrow> jsval \<Rightarrow> getPage_options \<Rightarrow> (string page, 'w) io" where
  "getPage cfg post idOrPath options =
     (let withChildren = dflt (gp_withChildren options) False;
          locale = dflt (gp_locale options) (orElse (defaultLocale cfg) ''en'')
      in io_bind
           (case idOrPath of
              JNum n \<Rightarrow>
                io_bind (io_lift (validateId idOrPath)) (\<lambda>validId.
                io_bind (graphql post (QuerySingle validId)) (\<lambda>data.
                io_return (map_option flattenTags (pages_single data))))
            | _ \<Rightarrow>
                io_bind (graphql post (QuerySingleByPath (sanitizeString idOrPath)
                                         (sanitizeString (JStr locale)))) (\<lambda>data.
                io_return (map_option flattenTags (pages_singleByPath data))))
           (\<lambda>page.
              case page of
                None \<Rightarrow> io_throw (Error (''Page not found: '' @ String_js idOrPath))
              | Some page \<Rightarrow>
                  if withChildren
                  then io_bind (graphql post QueryChildList) (\<lambda>childData.
                       io_return (page\<lparr>pg_children :=
                         Some (filter (isChildOf page) (dflt (pages_list childData) []))\<rparr>))
                  else io_return page))"

text \<open>
  \<open>createPage(path, title, options)\<close>: the path is validated, then sanitized; the mutation
  is sent; a result that did not succeed is an error with the remote's message or
  \<open>Failed to create page\<close>; otherwise \<open>result.page\<close> is returned.
\<close>

record createPage_options =
  cp_content :: "string option"
  cp_description :: "string option"
  cp_tags :: "string list option"
  cp_locale :: "string option"
  cp_editor :: "string option"
  cp_isPublished :: "bool option"
  cp_isPrivate :: "bool option"

definition createPage ::
  "config \<Rightarrow> 'w remote \<Rightarrow> jsval \<Rightarrow> string \<Rightarrow> createPage_options \<Rightarrow> (page_ref option, 'w) io" where
  "createPage cfg post path title options =
     (let content = dflt (cp_content options) [];
          description = dflt (cp_description options) [];
          tags = dflt (cp_tags options) [];
          locale = dflt (cp_locale options) (orElse (defaultLocale cfg) ''en'');
          editor = dflt (cp_editor options) (orElse (defaultEditor cfg) ''markdown'');
          isPublished = dflt (cp_isPublished options) True;
          isPrivate = dflt (cp_isPrivate options) False
      in io_bind (io_lift (validatePath path)) (\<lambda>validPath.
         let safePath = sanitizeString (JStr validPath);
             safeEditor = sanitizeString (JStr editor);
             safeLocale = sanitizeString (JStr locale)
         in io_bind (graphql post (MutationCreate
              \<lparr>ca_content = content, ca_description = description, ca_editor = safeEditor,
               ca_isPrivate = isPrivate, ca_isPublished = isPublished, ca_locale = safeLocale,
               ca_path = safePath, ca_tags = tags, ca_title = title\<rparr>)) (\<lambda>data.
            let result = pages_create data
            in if \<not> result_succeeded result
               then io_throw (Error (orElse (result_message result) ''Failed to create page''))
               else io_return (case result of Some r \<Rightarrow> result_page r | None \<Rightarrow> None))))"

text \<open>
  \<open>updatePage(id, options)\<close>:
  \<^verbatim>\<open>
  const validId = validateId(id);
  const currentPage = await getPage(validId);
  const mutation = `... update(
          id: ${validId}
          content: ${JSON.stringify(content ?? currentPage.content)}
          description: ${JSON.stringify(description ?? currentPage.description ?? '')}
          isPublished: ${isPublished ?? currentPage.isPublished}
          tags: ${JSON.stringify(tags ?? currentPage.tags ?? [])}
          title: ${JSON.stringify(title ?? currentPage.title)}
        ) ...`;
  const data = await graphql(mutation);
  const result = data?.pages?.update;
  if (!result?.responseResult?.succeeded) {
    throw new Error(result?.responseResult?.message || 'Failed to update page');
  }
  return result.page;
  \<close>
\<close>

record updatePage_options =
  up_content :: "string option"
  up_title :: "string option"
  up_description :: "string option"
  up_tags :: "string list option"
  up_isPublished :: "bool option"

definition mergedArgs :: "number \<Rightarrow> updatePage_options \<Rightarrow> string page \<Rightarrow> update_args" where
  "mergedArgs validId options currentPage =
     \<lparr>ua_id = validId,
      ua_content = nullish (up_content options) (pg_content currentPage),
      ua_description = dflt (nullish (up_description options) (pg_description currentPage)) [],
      ua_isPublished = nullish (up_isPublished options) (pg_isPublished currentPage),
      ua_tags = dflt (nullish (up_tags options) (pg_tags currentPage)) [],
      ua_title = nullish (up_title options) (pg_title currentPage)\<rparr>"

definition updatePage ::
  "config \<Rightarrow> 'w remote \<Rightarrow> jsval \<Rightarrow> updatePage_options \<Rightarrow> (page_ref option, 'w) io" where
  "updatePage cfg post id' options =
     io_bind (io_lift (validateId id')) (\<lambda>validId.
     io_bind (getPage cfg post (JNum validId)
                \<lparr>gp_withChildren = None, gp_locale = None\<rparr>) (\<lambda>currentPage.
     io_bind (graphql post (MutationUpdate (mergedArgs validId options currentPage))) (\<lambda>data.
       let result = pages_update data
       in if \<not> result_succeeded result
          then io_throw (Error (orElse (result_message result) ''Failed to update page''))
          else io_return (case result of Some r \<Rightarrow> result_page r | None \<Rightarrow> None))))"

text \<open>
  \<open>movePage\<close>, \<open>deletePage\<close>, \<open>deleteAsset\<close> and \<open>revertPage\<close>: validate, send, check the
  result, return \<open>{success: true, ...}\<close> with the arguments as they were given.
\<close>

definition movePage ::
  "config \<Rightarrow> 'w remote \<Rightarrow> jsval \<Rightarrow> jsval \<Rightarrow> string option \<Rightarrow> (bool \<times> jsval, 'w) io" where
  "movePage cfg post id' newPath locale_option =
     (let locale = dflt locale_option (orElse (defaultLocale cfg) ''en'')
      in io_bind (io_lift (validateId id')) (\<lambda>validId.
         io_bind (io_lift (validatePath newPath)) (\<lambda>validPath.
         let safePath = sanitizeString (JStr validPath);
             safeLocale = sanitizeString (JStr locale)
         in io_bind (graphql post (MutationMove validId safePath safeLocale)) (\<lambda>data.
            let result = pages_move data
            in if \<not> result_succeeded result
               then io_throw (Error (orElse (result_message result) ''Failed to move page''))
               else io_return (True, newPath)))))"

definition deletePage :: "'w remote \<Rightarrow> jsval \<Rightarrow> (bool \<times> jsval, 'w) io" where
  "deletePage post id' =
     io_bind (io_lift (validateId id')) (\<lambda>validId.
     io_bind (graphql post (MutationDelete validId)) (\<lambda>data.
       let result = pages_delete data
       in if \<not> result_succeeded result
          then io_throw (Error (orElse (result_message result) ''Failed to delete page''))
          else io_return (True, id')))"

definition deleteAsset :: "'w remote \<Rightarrow> jsval \<Rightarrow> (bool \<times> jsval, 'w) io" where
  "deleteAsset post id' =
     io_bind (io_lift (validateId id')) (\<lambda>validId.
     io_bind (graphql post (MutationDeleteAsset validId)) (\<lambda>data.
       let result = assets_deleteAsset data
       in if \<not> result_succeeded result
          then io_throw (Error (orElse (result_message result) ''Failed to delete asset''))
          else io_return (True, id')))"

definition revertPage :: "'w remote \<Rightarrow> jsval \<Rightarrow> jsval \<Rightarrow> (bool \<times> jsval \<times> jsval, 'w) io" where
  "revertPage post pageId versionId =
     io_bind (io_lift (validateId pageId)) (\<lambda>validPageId.
     io_bind (io_lift (validateId versionId)) (\<lambda>validVersionId.
     io_bind (graphql post (MutationRestore validPageId validVersionId)) (\<lambda>data.
       let result = pages_restore data
       in if \<not> result_succeeded result
          then io_throw (Error (orElse (result_message result) ''Failed to revert page''))
          else io_return (True, pageId, versionId))))"


text \<open>
  Remotes for the examples: one that gives the same outcome to every request and leaves the
  world alone, one that answers by the request alone, one whose world is the list of the
  requests received so far.
\<close>

definition constRemote :: "http_result \<Rightarrow> 'w remote" where
  "constRemote r query w = (r, w)"

definition answeringRemote :: "(request \<Rightarrow> http_result) \<Rightarrow> 'w remote" where
  "answeringRemote answer query w = (answer query, w)"

definition loggingRemote :: "(request \<Rightarrow> http_result) \<Rightarrow> request list remote" where
  "loggingRemote answer query sent = (answer query, sent @ [query])"

text \<open>A response with status 200 and the given \<open>data\<close>, no \<open>errors\<close>.\<close>

definition ok :: "data \<Rightarrow> http_result" where
  "ok d = Resolved \<lparr>status = 200, response_data = Some \<lparr>env_errors = None, env_data = Some d\<rparr>\<rparr>"

text \<open>
  Values for the examples: an HTTP 500 whose body is an envelope without \<open>errors\<close>, two error
  entries, a mutation result that did not succeed and one that did, a configuration without
  defaults, a page as the remote holds it, and a remote that knows this page under id 7 and
  answers every mutation with the given result.
\<close>

definition status500 :: axios_error where
  "status500 =
     \<lparr>cause = ''Request failed with status code 500'',
      error_response = Some \<lparr>status = 500, response_data =
        Some \<lparr>env_errors = None, env_data = Some (DataList (Some []))\<rparr>\<rparr>\<rparr>"

definition twoErrors :: "gql_entry list" where
  "twoErrors = [\<lparr>entry_message = Some ''First error''\<rparr>, \<lparr>entry_message = Some ''Second error''\<rparr>]"

definition failed :: "string option \<Rightarrow> mutation_result" where
  "failed m = \<lparr>responseResult = Some \<lparr>succeeded = False, errorCode = None, rr_message = m\<rparr>,
               result_page = None\<rparr>"


definition sampleConfig :: config where
  "sampleConfig = \<lparr>defaultLocale = None, defaultEditor = None\<rparr>"

definition noCreateOptions :: createPage_options where
  "noCreateOptions = \<lparr>cp_content = None, cp_description = None, cp_tags = None, cp_locale = None,
     cp_editor = None, cp_isPublished = None, cp_isPrivate = None\<rparr>"

definition newContent :: updatePage_options where
  "newContent = \<lparr>up_content = Some ''new text'', up_title = None, up_description = None,
     up_tags = None, up_isPublished = None\<rparr>"

definition samplePage :: "tag_rel page" where
  "samplePage =
     \<lparr>pg_id = 7, pg_path = ''docs/api'', pg_title = Some ''API'', pg_description = None,
      pg_content = Some ''old text'', pg_render = ''<p>old text</p>'', pg_locale = ''en'',
      pg_createdAt = ''2026-01-15'', pg_updatedAt = ''2026-01-20'', pg_authorName = ''admin'',
      pg_tags = Some [\<lparr>tag = ''api''\<rparr>, \<lparr>tag = ''docs''\<rparr>], pg_isPublished = Some True,
      pg_isPrivate = Some False, pg_children = None\<rparr>"


definition sampleAnswer :: "mutation_result \<Rightarrow> request \<Rightarrow> http_result" where
  "sampleAnswer r query =
     (case query of
        QuerySingle n \<Rightarrow> ok (DataSingle (if n = Finite 7 then Some samplePage else None))
      | QuerySingleByPath p l \<Rightarrow> ok (DataSingleByPath None)
      | QueryChildList \<Rightarrow> ok (DataList (Some []))
      | QueryStatsList \<Rightarrow> ok (DataList (Some []))
      | MutationCreate a \<Rightarrow> ok (DataCreate r)
      | MutationUpdate a \<Rightarrow> ok (DataUpdate r)
      | MutationMove n p l \<Rightarrow> ok (DataMove r)
      | MutationDelete n \<Rightarrow> ok (DataDelete r)
      | MutationDeleteAsset n \<Rightarrow> ok (DataDeleteAsset r)
      | MutationRestore p v \<Rightarrow> ok (DataRestore r))"

section \<open>lib/api.js: getStats\<close>

text \<open>
  \<open>stats.locales\<close> and \<open>stats.topTags\<close> are objects created by \<open>{}\<close> and used as counters
  by \<open>obj[k] = (obj[k] || 0) + 1\<close>. Such an object has its own properties, modelled as the
  list of keys and values in the order in which JavaScript enumerates them, and it inherits
  the members of \<open>Object.prototype\<close>:

    \<^item> \<open>obj[k]\<close> reads the own property \<open>k\<close> when there is one, else the inherited member
      named \<open>k\<close> when there is one, else \<open>undefined\<close>;
    \<^item> an inherited member is a function, or for \<open>__proto__\<close> the prototype object; both are
      truthy, and adding 1 to one gives a string, its text followed by the character \<open>1\<close>;
      adding 1 to such a string appends another \<open>1\<close>;
    \<^item> \<open>obj[k] = v\<close> sets the own property \<open>k\<close>, creating it when the object has none, except
      for \<open>k = '__proto__'\<close>, where the inherited setter is called, which ignores a value
      that is a number or a string;
    \<^item> own keys that are array indices (the decimal form of an integer below \<open>2^32 - 1\<close>) are
      enumerated first, in ascending order, the other keys after them in the order of their
      creation.

  A value is a count (an array has fewer than \<open>2^32\<close> elements, so that the counts are exact)
  or \<open>MemberText m j\<close>, the text of the inherited member named \<open>m\<close> followed by \<open>j\<close>
  characters \<open>1\<close>.
\<close>

datatype propval = Count nat | MemberText string nat

type_synonym object = "(string \<times> propval) list"

definition objectPrototypeNames :: "string list" where
  "objectPrototypeNames =
     [''constructor'', ''__defineGetter__'', ''__defineSetter__'', ''hasOwnProperty'',
      ''__lookupGetter__'', ''__lookupSetter__'', ''isPrototypeOf'', ''propertyIsEnumerable'',
      ''toString'', ''valueOf'', ''__proto__'', ''toLocaleString'']"

definition isArrayIndex :: "string \<Rightarrow> bool" where
  "isArrayIndex k \<longleftrightarrow>
     k = ''0'' \<or>
     (k \<noteq> [] \<and> hd k \<noteq> CHR ''0'' \<and> list_all isDigit k \<and> digitsVal k < 4294967295)"

fun replaceProp :: "object \<Rightarrow> string \<Rightarrow> propval \<Rightarrow> object" where
  "replaceProp [] k v = []"
| "replaceProp ((k', v') # obj) k v =
     (if k' = k then (k, v) # obj else (k', v') # replaceProp obj k v)"

fun insertIndex :: "object \<Rightarrow> string \<Rightarrow> propval \<Rightarrow> object" where
  "insertIndex [] k v = [(k, v)]"
| "insertIndex ((k', v') # obj) k v =
     (if isArrayIndex k' \<and> digitsVal k' < digitsVal k then (k', v') # insertIndex obj k v
      else (k, v) # (k', v') # obj)"

text \<open>\<open>obj[k] = v\<close>, for a value \<open>v\<close> that is a number or a string.\<close>

definition assign :: "object \<Rightarrow> string \<Rightarrow> propval \<Rightarrow> object" where
  "assign obj k v =
     (if map_of obj k \<noteq> None then replaceProp obj k v
      else if k = ''__proto__'' then obj
      else if isArrayIndex k then insertIndex obj k v
      else obj @ [(k, v)])"

text \<open>\<open>(obj[k] || 0) + 1\<close>.\<close>

definition plusOne :: "object \<Rightarrow> string \<Rightarrow> propval" where
  "plusOne obj k =
     (case map_of obj k of
        Some (Count n) \<Rightarrow> Count (n + 1)
      | Some (MemberText m j) \<Rightarrow> MemberText m (j + 1)
      | None \<Rightarrow> if k \<in> set objectPrototypeNames then MemberText k 1 else Count 1)"

definition increment :: "object \<Rightarrow> string \<Rightarrow> object" where
  "increment obj k = assign obj k (plusOne obj k)"

record stats =
  totalPages :: nat
  publishedPages :: nat
  draftPages :: nat
  locales :: object
  topTags :: object

text \<open>
  \<^verbatim>\<open>
  const stats = {
    totalPages: pages.length,
    publishedPages: pages.filter(p => p.isPublished).length,
    draftPages: pages.filter(p => !p.isPublished).length,
    locales: {},
    topTags: {}
  };
  pages.forEach(p => {
    stats.locales[p.locale] = (stats.locales[p.locale] || 0) + 1;
    (p.tags || []).forEach(tag => {
      stats.topTags[tag] = (stats.topTags[tag] || 0) + 1;
    });
  });
  \<close>
\<close>

definition countPage :: "stats \<Rightarrow> page_stub \<Rightarrow> stats" where
  "countPage st p =
     st\<lparr>locales := increment (locales st) (stub_locale p),
        topTags := foldl increment (topTags st) (dflt (stub_tags p) [])\<rparr>"

definition computeStats :: "page_stub list \<Rightarrow> stats" where
  "computeStats pages =
     foldl countPage
       \<lparr>totalPages = length pages,
        publishedPages = length (filter (\<lambda>p. stub_isPublished p) pages),
        draftPages = length (filter (\<lambda>p. \<not> stub_isPublished p) pages),
        locales = [], topTags = []\<rparr>
       pages"

definition getStats :: "'w remote \<Rightarrow> (stats, 'w) io" where
  "getStats post =
     io_bind (graphql post QueryStatsList) (\<lambda>data.
     io_return (computeStats (dflt (pages_list data) [])))"

text \<open>
  The counts held by an object, the number of pages of a list with a given locale, a list
  of three pages, and a list of two pages of which one has the locale \<open>__proto__\<close>.
\<close>

definition counts :: "object \<Rightarrow> nat list" where
  "counts obj = concat (map (\<lambda>(k, v). case v of Count n \<Rightarrow> [n] | MemberText m j \<Rightarrow> []) obj)"

definition onlyCounts :: "object \<Rightarrow> bool" where
  "onlyCounts obj \<longleftrightarrow> list_all (\<lambda>(k, v). case v of Count n \<Rightarrow> True | MemberText m j \<Rightarrow> False) obj"

definition localeCount :: "page_stub list \<Rightarrow> string \<Rightarrow> nat" where
  "localeCount ps l = length (filter (\<lambda>p. stub_locale p = l) ps)"

definition twoPages :: "page_stub list" where
  "twoPages =
     [\<lparr>stub_id = 1, stub_path = ''a'', stub_title = ''A'', stub_locale = ''en'',
       stub_isPublished = True, stub_tags = Some [''x'']\<rparr>,
      \<lparr>stub_id = 2, stub_path = ''b'', stub_title = ''B'', stub_locale = ''fr'',
       stub_isPublished = False, stub_tags = None\<rparr>,
      \<lparr>stub_id = 3, stub_path = ''c'', stub_title = ''C'', stub_locale = ''en'',
       stub_isPublished = True, stub_tags = Some [''x'', ''y'']\<rparr>]"

definition protoPages :: "page_stub list" where
  "protoPages =
     [\<lparr>stub_id = 1, stub_path = ''a'', stub_title = ''A'', stub_locale = ''en'',
       stub_isPublished = True, stub_tags = None\<rparr>,
      \<lparr>stub_id = 2, stub_path = ''b'', stub_title = ''B'', stub_locale = ''__proto__'',
       stub_isPublished = True, stub_tags = None\<rparr>]"

section \<open>lib/helpers.js: extractLinks\<close>

text \<open>
  The two patterns of \<open>extractLinks\<close> are regular expressions, matched the way JavaScript
  does: greedily, left to right, backtracking in order of priority. The expressions here are
  the fragment the two patterns need: a literal character, a negated class \<open>[^...]\<close>, the
  greedy \<open>*\<close> and \<open>+\<close> of such an atom, the greedy \<open>?\<close>, a numbered capturing group, and
  concatenation.
\<close>

datatype atom = Lit char | NoneOf "char list"

datatype regex =
    Atom atom
  | Star atom
  | Plus atom
  | Opt regex
  | Group nat regex
  | Seq regex regex

fun matchAtom :: "atom \<Rightarrow> char \<Rightarrow> bool" where
  "matchAtom (Lit c) x = (x = c)"
| "matchAtom (NoneOf cs) x = (x \<notin> set cs)"

text \<open>
  \<open>run r s k\<close>: every way \<open>r\<close> matches a prefix of \<open>s\<close>, starting with the captures \<open>k\<close>, as
  the rest of the input and the captures after the match, in the order backtracking tries
  them: a greedy quantifier offers its longest run first, \<open>?\<close> its operand before nothing.
\<close>

type_synonym captures = "nat \<rightharpoonup> string"

fun run :: "regex \<Rightarrow> string \<Rightarrow> captures \<Rightarrow> (string \<times> captures) list" where
  "run (Atom a) s k = (case s of [] \<Rightarrow> [] | x # xs \<Rightarrow> if matchAtom a x then [(xs, k)] else [])"
| "run (Star a) s k =
     map (\<lambda>n. (drop n s, k)) (rev [0..<Suc (length (takeWhile (matchAtom a) s))])"
| "run (Plus a) s k =
     map (\<lambda>n. (drop n s, k)) (rev [1..<Suc (length (takeWhile (matchAtom a) s))])"
| "run (Opt r) s k = run r s k @ [(s, k)]"
| "run (Group g r) s k =
     map (\<lambda>(s', k'). (s', k'(g \<mapsto> take (length s - length s') s))) (run r s k)"
| "run (Seq r1 r2) s k = concat (map (\<lambda>(s', k'). run r2 s' k') (run r1 s k))"

text \<open>The match at the start of \<open>s\<close>: the first way, if there is one.\<close>

definition matchHere :: "regex \<Rightarrow> string \<Rightarrow> (string \<times> captures) option" where
  "matchHere r s = (case run r s Map.empty of [] \<Rightarrow> None | m # _ \<Rightarrow> Some m)"

text \<open>
  \<open>regex.exec(str)\<close> for a global expression, on the input from \<open>lastIndex\<close> on: the match at
  the first position that has one, the end of the input included. The result is the input
  after the match (the new \<open>lastIndex\<close>) and the captures.
\<close>

fun execFrom :: "regex \<Rightarrow> string \<Rightarrow> (string \<times> captures) option" where
  "execFrom r [] = matchHere r []"
| "execFrom r (x # xs) =
     (case matchHere r (x # xs) of Some m \<Rightarrow> Some m | None \<Rightarrow> execFrom r xs)"

text \<open>
  \<open>while ((match = regex.exec(markdown)) !== null) { links.push(...) }\<close>: the captures of
  the successive matches. A match that leaves \<open>lastIndex\<close> where it was would be found again
  for ever; the loop then does not return, which is \<open>None\<close>.
\<close>

function matchAll :: "regex \<Rightarrow> string \<Rightarrow> captures list option" where
  "matchAll r s =
     (case execFrom r s of
        None \<Rightarrow> Some []
      | Some (rest, k) \<Rightarrow>
          if length rest < length s then map_option ((#) k) (matchAll r rest) else None)"
  by pat_completeness auto
termination
  by (relation "measure (\<lambda>(r, s). length s)") auto

declare matchAll.simps [simp del]

text \<open>
  \<^verbatim>\<open>
  const mdLinkRegex = /\[([^\]]*)\]\(([^)]+)\)/g;
  const wikiLinkRegex = /\[\[([^\]|]+)(?:\|([^\]]+))?\]\]/g;
  \<close>
\<close>

definition mdLinkRegex :: regex where
  "mdLinkRegex =
     Seq (Atom (Lit (CHR ''['')))
    (Seq (Group 1 (Star (NoneOf '']'')))
    (Seq (Atom (Lit (CHR '']'')))
    (Seq (Atom (Lit (CHR ''('')))
    (Seq (Group 2 (Plus (NoneOf '')'')))
         (Atom (Lit (CHR '')'')))))))"

definition wikiLinkRegex :: regex where
  "wikiLinkRegex =
     Seq (Atom (Lit (CHR ''['')))
    (Seq (Atom (Lit (CHR ''['')))
    (Seq (Group 1 (Plus (NoneOf '']|'')))
    (Seq (Opt (Seq (Atom (Lit (CHR ''|''))) (Group 2 (Plus (NoneOf '']'')))))
    (Seq (Atom (Lit (CHR '']'')))
         (Atom (Lit (CHR '']'')))))))"

datatype link_type = Markdown | Wiki

record link =
  link_text :: "string option"
  url :: "string option"
  link_type :: link_type

text \<open>
  \<^verbatim>\<open>
  links.push({ text: match[1], url: match[2], type: 'markdown' });
  links.push({ text: match[2] || match[1], url: match[1], type: 'wiki' });
  \<close>
  A group that took no part in the match is \<open>undefined\<close>, here \<open>None\<close>.
\<close>

definition mdLink :: "captures \<Rightarrow> link" where
  "mdLink match = \<lparr>link_text = match 1, url = match 2, link_type = Markdown\<rparr>"

definition wikiLink :: "captures \<Rightarrow> link" where
  "wikiLink match =
     \<lparr>link_text = (case match 2 of Some t \<Rightarrow> if t \<noteq> [] then Some t else match 1
                    | None \<Rightarrow> match 1),
      url = match 1, link_type = Wiki\<rparr>"

definition extractLinks :: "string \<Rightarrow> link list option" where
  "extractLinks markdown =
     (case matchAll mdLinkRegex markdown of
        None \<Rightarrow> None
      | Some mds \<Rightarrow>
          (case matchAll wikiLinkRegex markdown of
             None \<Rightarrow> None
           | Some wikis \<Rightarrow> Some (map mdLink mds @ map wikiLink wikis)))"

text \<open>
  For the proofs: the least number of characters a match of an expression takes.
\<close>

fun minLen :: "regex \<Rightarrow> nat" where
  "minLen (Atom a) = 1"
| "minLen (Star a) = 0"
| "minLen (Plus a) = 1"
| "minLen (Opt r) = 0"
| "minLen (Group g r) = minLen r"
| "minLen (Seq r1 r2) = minLen r1 + minLen r2"

subsection \<open>The links of a text, as the description of extractLinks has them\<close>

text \<open>
  The description speaks of the links of the markdown form \<open>[text](url)\<close> and of the wiki
  form \<open>[[target]]\<close> or \<open>[[target|text]]\<close>, collected in two passes. The definitions below
  read the two forms directly off the text, without regular expressions; they are what
  \<open>extractLinks\<close> is compared with.

  \<open>spec_upTo stops s\<close> cuts \<open>s\<close> at its first character among \<open>stops\<close>: the text before it,
  that character, and the text after it.
\<close>

definition spec_upTo :: "char list \<Rightarrow> string \<Rightarrow> (string \<times> char \<times> string) option" where
  "spec_upTo stops s =
     (case dropWhile (\<lambda>c. c \<notin> set stops) s of
        [] \<Rightarrow> None
      | d # rest \<Rightarrow> Some (takeWhile (\<lambda>c. c \<notin> set stops) s, d, rest))"

text \<open>
  A markdown link at the start of \<open>s\<close>: \<open>[\<close>, the text up to the next \<open>]\<close>, which \<open>(\<close> must
  follow at once, then the url up to the next \<open>)\<close>, which is not empty. The result is the
  text and the url, and what follows the link.
\<close>

definition spec_mdLinkAt :: "string \<Rightarrow> ((string \<times> string) \<times> string) option" where
  "spec_mdLinkAt s =
     (case s of
        [] \<Rightarrow> None
      | a # s1 \<Rightarrow>
          if a \<noteq> CHR ''['' then None
          else (case spec_upTo '']'' s1 of
                  None \<Rightarrow> None
                | Some (t, d, s2) \<Rightarrow>
                    (case s2 of
                       [] \<Rightarrow> None
                     | p # s3 \<Rightarrow>
                         if p \<noteq> CHR ''('' then None
                         else (case spec_upTo '')'' s3 of
                                 None \<Rightarrow> None
                               | Some (u, e, rest) \<Rightarrow>
                                   if u = [] then None else Some ((t, u), rest)))))"

text \<open>
  A wiki link at the start of \<open>s\<close>: \<open>[[\<close>, the target up to the next \<open>]\<close> or \<open>|\<close>, which is
  not empty; then either \<open>]]\<close>, or \<open>|\<close> and a text up to the next \<open>]\<close>, which is not empty,
  and \<open>]]\<close>. The result is the target and the text, if there is one, and what follows the
  link.
\<close>

definition spec_wikiLinkAt :: "string \<Rightarrow> ((string \<times> string option) \<times> string) option" where
  "spec_wikiLinkAt s =
     (case s of
        [] \<Rightarrow> None
      | a # s0 \<Rightarrow>
          (case s0 of
             [] \<Rightarrow> None
           | b # s1 \<Rightarrow>
               if a \<noteq> CHR ''['' \<or> b \<noteq> CHR ''['' then None
               else (case spec_upTo '']|'' s1 of
                       None \<Rightarrow> None
                     | Some (t, d, s2) \<Rightarrow>
                         if t = [] then None
                         else if d = CHR '']'' then
                           (case s2 of
                              [] \<Rightarrow> None
                            | e # rest \<Rightarrow> if e = CHR '']'' then Some ((t, None), rest) else None)
                         else
                           (case spec_upTo '']'' s2 of
                              None \<Rightarrow> None
                            | Some (x, e, s3) \<Rightarrow>
                                (case s3 of
                                   [] \<Rightarrow> None
                                 | f # rest \<Rightarrow>
                                     if x \<noteq> [] \<and> f = CHR '']'' then Some ((t, Some x), rest)
                                     else None)))))"

text \<open>
  One pass over the text: where a link starts, it is collected and the pass goes on behind
  it; elsewhere the pass moves on by one character. (A link is never empty; the test on the
  lengths only serves the termination of the definition.)
\<close>

function spec_scan :: "(string \<Rightarrow> ('a \<times> string) option) \<Rightarrow> string \<Rightarrow> 'a list" where
  "spec_scan linkAt s =
     (case linkAt s of
        Some (l, rest) \<Rightarrow> if length rest < length s then l # spec_scan linkAt rest else [l]
      | None \<Rightarrow> (case s of [] \<Rightarrow> [] | c # cs \<Rightarrow> spec_scan linkAt cs))"
  by pat_completeness auto
termination
  by (relation "measure (\<lambda>(linkAt, s). length s)") auto

declare spec_scan.simps [simp del]

definition spec_mdLink :: "string \<times> string \<Rightarrow> link" where
  "spec_mdLink l = (case l of (t, u) \<Rightarrow> \<lparr>link_text = Some t, url = Some u, link_type = Markdown\<rparr>)"

definition spec_wikiLink :: "string \<times> string option \<Rightarrow> link" where
  "spec_wikiLink l =
     (case l of (target, x) \<Rightarrow>
        \<lparr>link_text = Some (case x of Some t \<Rightarrow> t | None \<Rightarrow> target), url = Some target,
         link_type = Wiki\<rparr>)"

text \<open>The markdown links of the text, then its wiki links.\<close>

definition spec_extractLinks :: "string \<Rightarrow> link list" where
  "spec_extractLinks markdown =
     map spec_mdLink (spec_scan spec_mdLinkAt markdown) @
     map spec_wikiLink (spec_scan spec_wikiLinkAt markdown)"

section \<open>tests/helpers.test.js: getWords and similarity\<close>













section \<open>Properties of sanitizeString\<close>

lemma replaceAll_Nil [simp]: "replaceAll c r [] = []"
  by (simp add: replaceAll_def)

lemma replaceAll_Cons [simp]:
  "replaceAll c r (x # xs) = (if x = c then r else [x]) @ replaceAll c r xs"
  by (simp add: replaceAll_def)

lemma replaceAll_append [simp]:
  "replaceAll c r (xs @ ys) = replaceAll c r xs @ replaceAll c r ys"
  by (simp add: replaceAll_def)

lemma replaceAll_absent: "c \<notin> set s \<Longrightarrow> replaceAll c r s = s"
  by (induction s) auto

lemma five_passes_single_pass:
  "replaceAll (CHR 0x09) [CHR 0x5C, CHR ''t'']
     (replaceAll (CHR 0x0D) [CHR 0x5C, CHR ''r'']
       (replaceAll (CHR 0x0A) [CHR 0x5C, CHR ''n'']
         (replaceAll (CHR 0x22) [CHR 0x5C, CHR 0x22]
           (replaceAll (CHR 0x5C) [CHR 0x5C, CHR 0x5C] s))))
   = concat (map escapeChar s)"
  by (induction s) (auto simp: escapeChar_def)

text \<open>
  C1. \<open>sanitizeString\<close> returns the empty string for \<open>null\<close> and \<open>undefined\<close>; for every other
  value it returns the string form with the five substitutions applied in the order
  backslash, double quote, newline, carriage return, tab, which amounts to escaping each
  character of the string form once; on a string with none of the five characters it is the
  identity; \<open>a\b\<close> becomes \<open>a\\b\<close> and \<open>say "hi"\<close> becomes \<open>say \"hi\"\<close>.
\<close>

theorem sanitizeString_spec:
  "sanitizeString JNull = [] \<and> sanitizeString JUndefined = [] \<and>
   (v \<noteq> JNull \<and> v \<noteq> JUndefined \<longrightarrow>
      sanitizeString v =
        replaceAll (CHR 0x09) [CHR 0x5C, CHR ''t'']
          (replaceAll (CHR 0x0D) [CHR 0x5C, CHR ''r'']
            (replaceAll (CHR 0x0A) [CHR 0x5C, CHR ''n'']
              (replaceAll (CHR 0x22) [CHR 0x5C, CHR 0x22]
                (replaceAll (CHR 0x5C) [CHR 0x5C, CHR 0x5C] (String_js v))))) \<and>
      sanitizeString v = concat (map escapeChar (String_js v))) \<and>
   (set s \<inter> {CHR 0x5C, CHR 0x22, CHR 0x0A, CHR 0x0D, CHR 0x09} = {} \<longrightarrow>
      sanitizeString (JStr s) = s) \<and>
   sanitizeString (JStr [CHR ''a'', CHR 0x5C, CHR ''b''])
     = [CHR ''a'', CHR 0x5C, CHR 0x5C, CHR ''b''] \<and>
   sanitizeString (JStr (''say '' @ [CHR 0x22] @ ''hi'' @ [CHR 0x22]))
     = ''say '' @ [CHR 0x5C, CHR 0x22] @ ''hi'' @ [CHR 0x5C, CHR 0x22]"
proof -
  have safe: "sanitizeString (JStr s) = s"
    if "set s \<inter> {CHR 0x5C, CHR 0x22, CHR 0x0A, CHR 0x0D, CHR 0x09} = {}"
  proof -
    from that have "CHR 0x5C \<notin> set s" "CHR 0x22 \<notin> set s" "CHR 0x0A \<notin> set s"
      "CHR 0x0D \<notin> set s" "CHR 0x09 \<notin> set s"
      by auto
    then show ?thesis
      by (simp add: sanitizeString_def replaceAll_absent)
  qed
  have seq: "sanitizeString v = concat (map escapeChar (String_js v))"
    if "v \<noteq> JNull" "v \<noteq> JUndefined"
    using that by (simp add: sanitizeString_def five_passes_single_pass)
  show ?thesis
    using safe seq by (simp add: sanitizeString_def)
qed

theorem sanitizeString_spec_witness:
  "JNum (Finite 42) \<noteq> JNull \<and> JNum (Finite 42) \<noteq> JUndefined \<and>
   sanitizeString (JNum (Finite 42)) = ''42'' \<and>
   set ''docs/api'' \<inter> {CHR 0x5C, CHR 0x22, CHR 0x0A, CHR 0x0D, CHR 0x09} = {} \<and>
   sanitizeString (JStr ''docs/api'') = ''docs/api''"
  using sanitizeString_spec [of "JNum (Finite 42)" "''docs/api''"]
  by (simp add: escapeChar_def numberToString_def toDouble_def roundNat_def
      positiveToString_def showNat.simps)

section \<open>Properties of validateId and validatePath\<close>

lemma nth_digits_cases: "k < 10 \<Longrightarrow> k \<in> {0, 1, 2, 3, 4, 5, 6, 7, 8, 9::nat}"
  by auto

lemma isDigit_nth: "k < 10 \<Longrightarrow> isDigit (''0123456789'' ! k)"
  using nth_digits_cases [of k] by (auto simp: isDigit_def)

lemma digitVal_nth: "k < 10 \<Longrightarrow> digitVal (''0123456789'' ! k) = k"
  using nth_digits_cases [of k] by (auto simp: digitVal_def)

lemma showNat_digits: "c \<in> set (showNat n) \<Longrightarrow> isDigit c"
proof (induction n arbitrary: c rule: showNat.induct)
  case (1 n)
  show ?case
  proof (cases "n < 10")
    case True
    with "1.prems" show ?thesis
      by (subst (asm) showNat.simps) (simp add: isDigit_nth)
  next
    case False
    with "1.prems" have "c \<in> set (showNat (n div 10)) \<or> c = ''0123456789'' ! (n mod 10)"
      by (subst (asm) showNat.simps) auto
    with False "1.IH" show ?thesis
      by (auto simp: isDigit_nth)
  qed
qed

lemma showNat_ne: "showNat n \<noteq> []"
  by (subst showNat.simps) simp

lemma digitsVal_snoc: "digitsVal (ds @ [c]) = 10 * digitsVal ds + digitVal c"
  by (simp add: digitsVal_def)

lemma digitsVal_showNat: "digitsVal (showNat n) = n"
proof (induction n rule: showNat.induct)
  case (1 n)
  show ?case
  proof (cases "n < 10")
    case True
    then show ?thesis
      by (subst showNat.simps) (simp add: digitsVal_def digitVal_nth)
  next
    case False
    with 1 have "digitsVal (showNat (n div 10)) = n div 10" by simp
    with False show ?thesis
      by (subst showNat.simps) (simp add: digitsVal_snoc digitVal_nth)
  qed
qed

lemma isDigit_not_white: "isDigit c \<Longrightarrow> \<not> isWhiteSpace c"
  by (auto simp: isDigit_def isWhiteSpace_def)

lemma isDigit_not_sign: "isDigit c \<Longrightarrow> c \<noteq> CHR ''-'' \<and> c \<noteq> CHR ''+''"
  by (auto simp: isDigit_def)

lemma takeWhile_digits:
  "\<forall>c\<in>set ds. isDigit c \<Longrightarrow> rest = [] \<or> \<not> isDigit (hd rest) \<Longrightarrow>
   takeWhile isDigit (ds @ rest) = ds"
  by (induction ds) (auto simp: takeWhile_eq_Nil_iff)

lemma parseInt10_digits:
  assumes "ds \<noteq> []" and "\<forall>c\<in>set ds. isDigit c" and "rest = [] \<or> \<not> isDigit (hd rest)"
  shows "parseInt10 (ds @ rest) = toDouble (int (digitsVal ds))"
proof -
  from assms(1) obtain d ds' where ds: "ds = d # ds'" by (cases ds) auto
  with assms(2) have d: "isDigit d" by simp
  have tw: "takeWhile isDigit (d # ds' @ rest) = ds"
    using takeWhile_digits [OF assms(2,3)] ds by simp
  show ?thesis
    using d isDigit_not_white [OF d] isDigit_not_sign [OF d] tw assms(1)
    by (simp add: parseInt10_def ds)
qed

lemma parseInt10_minus_digits:
  assumes "ds \<noteq> []" and "\<forall>c\<in>set ds. isDigit c"
  shows "parseInt10 (CHR ''-'' # ds) = toDouble (- int (digitsVal ds))"
proof -
  have tw: "takeWhile isDigit ds = ds"
    using assms(2) by (induction ds) auto
  show ?thesis
    using assms(1) by (simp add: parseInt10_def isWhiteSpace_def tw)
qed

lemma parseInt10_showInt: "parseInt10 (showInt n) = toDouble n"
proof (cases "n < 0")
  case True
  then show ?thesis
    using parseInt10_minus_digits [of "showNat (nat (- n))"]
    by (simp add: showInt_def showNat_ne showNat_digits digitsVal_showNat)
next
  case False
  then show ?thesis
    using parseInt10_digits [of "showNat (nat n)" "[]"]
    by (simp add: showInt_def showNat_ne showNat_digits digitsVal_showNat)
qed

text \<open>Integers of magnitude below \<open>2^53\<close> are doubles, and are printed in full.\<close>

lemma roundNat_small: "v < 2 ^ 53 \<Longrightarrow> roundNat v = v"
  by (simp add: roundNat_def)

lemma toDouble_exact: "\<bar>i\<bar> < 2 ^ 53 \<Longrightarrow> toDouble i = Finite i"
proof -
  assume a: "\<bar>i\<bar> < 2 ^ 53"
  then have n: "nat \<bar>i\<bar> < 2 ^ 53"
    by (simp add: nat_less_iff)
  have "(2::nat) ^ 53 < 2 ^ 1024"
    by (rule power_strict_increasing) simp_all
  with n have "\<not> 2 ^ 1024 \<le> nat \<bar>i\<bar>" by simp
  with n show ?thesis
    by (auto simp: toDouble_def roundNat_small Let_def)
qed

lemma positiveToString_small: "x < 2 ^ 53 \<Longrightarrow> positiveToString x = showNat x"
  by (simp add: positiveToString_def)

lemma numberToString_exact: "\<bar>i\<bar> < 2 ^ 53 \<Longrightarrow> numberToString (Finite i) = showInt i"
  by (simp add: numberToString_def toDouble_exact showInt_def positiveToString_small nat_less_iff)

lemma validateId_Finite:
  assumes "\<bar>k\<bar> < 2 ^ 53"
  shows "validateId (JNum (Finite k)) =
           (if k < 1 then Inl (Error (''Invalid ID: '' @ showInt k)) else Inr (Finite k))"
  using assms
  by (simp add: validateId_def numberToString_exact parseInt10_showInt toDouble_exact)

lemma validateId_digits:
  assumes "ds \<noteq> []" and "\<forall>c\<in>set ds. isDigit c" and "rest = [] \<or> \<not> isDigit (hd rest)"
    and "digitsVal ds < 2 ^ 53"
  shows "validateId (JStr (ds @ rest)) =
           (if digitsVal ds < 1 then Inl (Error (''Invalid ID: '' @ ds @ rest))
            else Inr (Finite (int (digitsVal ds))))"
proof -
  have "\<bar>int (digitsVal ds)\<bar> < 2 ^ 53"
    using assms(4) by (simp add: nat_less_iff [symmetric] del: of_nat_less_numeral_power_cancel_iff) 
  then have "parseInt10 (ds @ rest) = Finite (int (digitsVal ds))"
    using parseInt10_digits [OF assms(1-3)] by (simp only: toDouble_exact)
  then show ?thesis
    by (simp add: validateId_def)
qed


lemma numberToString_1e21: "numberToString (Finite 1000000000000000000000) = ''1e+21''"
  by (simp add: numberToString_def toDouble_def roundNat_def bitLength.simps
      positiveToString_def shortestDecimal_def candidate_def showNat.simps stripZeros_def
      Let_def upt_rec)

lemma validateId_JNum_1e21: "validateId (JNum (Finite 1000000000000000000000)) = Inr (Finite 1)"
  using parseInt10_digits [of "''1''" "''e+21''"]
  by (simp add: validateId_def numberToString_1e21 isDigit_def digitsVal_def digitVal_def
      toDouble_exact)





















text \<open>
  C4. \<open>validateId\<close> parses the leading integer of the string form of its input and ignores
  what follows the digits; it fails, with \<open>Invalid ID\<close>, exactly when the parse gives
  \<open>NaN\<close> or a number below 1, and returns the parsed number otherwise. The parsed number
  is the double nearest to the integer that the digits denote, which is that integer
  below \<open>2^53\<close>. A number \<open>k\<close> of magnitude below \<open>2^53\<close> is accepted exactly when \<open>1 \<le> k\<close>;
  a string that does not start with a digit, a sign or white space fails; 0 and -1 fail,
  \<open>"456"\<close> gives 456 and \<open>"12abc"\<close> gives 12. Beyond that range the parse is
  permissive in two more ways: \<open>"9007199254740993"\<close> gives the double 9007199254740992, and
  the number \<open>10^21\<close>, whose string form is \<open>1e+21\<close>, gives 1; \<open>NaN\<close> and the infinities, as
  numbers, fail.
\<close>

theorem validateId_spec:
  "((\<exists>e. validateId v = Inl e) \<longleftrightarrow>
      (isNaN (parseInt10 (String_js v)) \<or> lessThanOne (parseInt10 (String_js v)))) \<and>
   (\<forall>e. validateId v = Inl e \<longrightarrow> e = Error (''Invalid ID: '' @ String_js v)) \<and>
   (\<forall>n. validateId v = Inr n \<longrightarrow> parseInt10 (String_js v) = n) \<and>
   (ds \<noteq> [] \<and> (\<forall>c\<in>set ds. isDigit c) \<and> (rest = [] \<or> \<not> isDigit (hd rest)) \<longrightarrow>
      parseInt10 (ds @ rest) = toDouble (int (digitsVal ds)) \<and>
      (digitsVal ds < 2 ^ 53 \<longrightarrow>
         parseInt10 (ds @ rest) = Finite (int (digitsVal ds)) \<and>
         validateId (JStr (ds @ rest)) =
           (if digitsVal ds < 1 then Inl (Error (''Invalid ID: '' @ ds @ rest))
            else Inr (Finite (int (digitsVal ds)))))) \<and>
   (\<bar>k\<bar> < 2 ^ 53 \<longrightarrow>
      validateId (JNum (Finite k)) =
        (if k < 1 then Inl (Error (''Invalid ID: '' @ showInt k)) else Inr (Finite k))) \<and>
   (junk = [] \<or> (\<not> isDigit (hd junk) \<and> \<not> isWhiteSpace (hd junk) \<and>
                  hd junk \<noteq> CHR ''-'' \<and> hd junk \<noteq> CHR ''+'') \<longrightarrow>
      parseInt10 junk = NotANumber \<and>
      validateId (JStr junk) = Inl (Error (''Invalid ID: '' @ junk))) \<and>
   validateId (JNum (Finite 0)) = Inl (Error ''Invalid ID: 0'') \<and>
   validateId (JNum (Finite (- 1))) = Inl (Error ''Invalid ID: -1'') \<and>
   validateId (JStr ''456'') = Inr (Finite 456) \<and>
   validateId (JStr ''12abc'') = Inr (Finite 12) \<and>
   validateId (JStr ''9007199254740993'') = Inr (Finite 9007199254740992) \<and>
   validateId (JNum (Finite 1000000000000000000000)) = Inr (Finite 1) \<and>
   validateId (JNum NotANumber) = Inl (Error ''Invalid ID: NaN'') \<and>
   validateId (JNum PlusInfinity) = Inl (Error ''Invalid ID: Infinity'') \<and>
   validateId (JNum MinusInfinity) = Inl (Error ''Invalid ID: -Infinity'')"
  (is "?A \<and> ?B \<and> ?C \<and> ?D \<and> ?E \<and> ?N \<and> ?F1 \<and> ?F2 \<and> ?G \<and> ?H \<and> ?I \<and> ?J \<and> ?K1 \<and> ?K2 \<and> ?K3")
proof -
  have a: ?A
    by (simp add: validateId_def Let_def)
  have b: ?B
    by (simp add: validateId_def Let_def)
  have c: ?C
    by (simp add: validateId_def Let_def)
  have d: ?D
  proof (intro impI, elim conjE)
    assume h: "ds \<noteq> []" "\<forall>c\<in>set ds. isDigit c" "rest = [] \<or> \<not> isDigit (hd rest)"
    have p: "parseInt10 (ds @ rest) = toDouble (int (digitsVal ds))"
      by (rule parseInt10_digits [OF h])
    have q: "parseInt10 (ds @ rest) = Finite (int (digitsVal ds))" if "digitsVal ds < 2 ^ 53"
    proof -
      have "\<bar>int (digitsVal ds)\<bar> < 2 ^ 53"
        using that by (simp add: nat_less_iff [symmetric] del: of_nat_less_numeral_power_cancel_iff)
      then show ?thesis
        using p by (simp only: toDouble_exact)
    qed
    show "parseInt10 (ds @ rest) = toDouble (int (digitsVal ds)) \<and>
      (digitsVal ds < 2 ^ 53 \<longrightarrow>
         parseInt10 (ds @ rest) = Finite (int (digitsVal ds)) \<and>
         validateId (JStr (ds @ rest)) =
           (if digitsVal ds < 1 then Inl (Error (''Invalid ID: '' @ ds @ rest))
            else Inr (Finite (int (digitsVal ds)))))"
      using p q validateId_digits [OF h] by blast
  qed
  have e: ?E
    using validateId_Finite [of k] by blast
  have n: ?N
  proof
    assume h: "junk = [] \<or> (\<not> isDigit (hd junk) \<and> \<not> isWhiteSpace (hd junk) \<and>
                  hd junk \<noteq> CHR ''-'' \<and> hd junk \<noteq> CHR ''+'')"
    have p: "parseInt10 junk = NotANumber"
    proof (cases junk)
      case Nil
      then show ?thesis by (simp add: parseInt10_def)
    next
      case (Cons c cs)
      with h show ?thesis by (simp add: parseInt10_def)
    qed
    then show "parseInt10 junk = NotANumber \<and>
      validateId (JStr junk) = Inl (Error (''Invalid ID: '' @ junk))"
      by (simp add: validateId_def)
  qed
  have f1: ?F1
    by (simp add: validateId_Finite showInt_def showNat.simps)
  have f2: ?F2
    by (simp add: validateId_Finite showInt_def showNat.simps)
  have g: ?G
    using validateId_digits [of "''456''" "[]"]
    by (simp add: isDigit_def digitsVal_def digitVal_def)
  have h: ?H
    using validateId_digits [of "''12''" "''abc''"]
    by (simp add: isDigit_def digitsVal_def digitVal_def)
  have i: ?I
    using parseInt10_digits [of "''9007199254740993''" "[]"]
    by (simp add: validateId_def isDigit_def digitsVal_def digitVal_def
        toDouble_def roundNat_def bitLength.simps Let_def)
  have j: ?J
    by (rule validateId_JNum_1e21)
  have k1: ?K1
    by (simp add: validateId_def numberToString_def parseInt10_def isWhiteSpace_def isDigit_def)
  have k2: ?K2
    by (simp add: validateId_def numberToString_def parseInt10_def isWhiteSpace_def isDigit_def)
  have k3: ?K3
    by (simp add: validateId_def numberToString_def parseInt10_def isWhiteSpace_def isDigit_def)
  show ?thesis
    by (intro conjI a b c d e n f1 f2 g h i j k1 k2 k3)
qed

theorem validateId_spec_witness:
  "validateId (JStr ''7 pages'') = Inr (Finite 7) \<and> parseInt10 ''7 pages'' = Finite 7 \<and>
   (\<exists>e. validateId (JStr ''x1'') = Inl e) \<and> isNaN (parseInt10 ''x1'') \<and>
   validateId (JNum (Finite 3)) = Inr (Finite 3) \<and>
   validateId (JStr ''abc'') = Inl (Error ''Invalid ID: abc'')"
  using validateId_spec [where v = "JStr ''x1''" and ds = "''7''" and rest = "'' pages''"
      and k = 3 and junk = "''abc''"]
  by (simp add: isDigit_def digitsVal_def digitVal_def parseInt10_def isWhiteSpace_def)

lemma list_ex_invalid:
  "list_ex (\<lambda>c. c \<in> set invalidPathChars) s \<longleftrightarrow> set s \<inter> set invalidPathChars \<noteq> {}"
  by (auto simp: list_ex_iff)

text \<open>
  C5. \<open>validatePath\<close> fails with \<open>Path is required\<close> on an absent, empty or non-string
  input; on a non-empty string it strips one leading slash and fails with
  \<open>Invalid characters in path\<close> exactly when what remains holds one of
  \<open>< > : " | ? *\<close>, returning the stripped path otherwise. \<open>"/docs/api"\<close> gives
  \<open>"docs/api"\<close>, \<open>"doc<s"\<close> fails, \<open>""\<close> fails with \<open>Path is required\<close>.
\<close>

theorem validatePath_spec:
  "((v = JUndefined \<or> v = JNull \<or> v = JStr [] \<or> \<not> isString v) \<longrightarrow>
      validatePath v = Inl (Error ''Path is required'')) \<and>
   (s \<noteq> [] \<longrightarrow>
      cleanPath s = (if hd s = CHR ''/'' then tl s else s) \<and>
      validatePath (JStr s) =
        (if set (cleanPath s) \<inter> {CHR ''<'', CHR ''>'', CHR '':'', CHR 0x22, CHR ''|'', CHR ''?'', CHR ''*''} \<noteq> {}
         then Inl (Error (''Invalid characters in path: '' @ s))
         else Inr (cleanPath s))) \<and>
   validatePath (JStr ''/docs/api'') = Inr ''docs/api'' \<and>
   validatePath (JStr ''doc<s'') = Inl (Error ''Invalid characters in path: doc<s'') \<and>
   validatePath (JStr '''') = Inl (Error ''Path is required'')"
proof -
  have a: "validatePath v = Inl (Error ''Path is required'')"
    if "v = JUndefined \<or> v = JNull \<or> v = JStr [] \<or> \<not> isString v"
    using that by (cases v) (auto simp: validatePath_def)
  have b: "cleanPath s = (if hd s = CHR ''/'' then tl s else s)" if "s \<noteq> []"
    using that by (cases s) (auto simp: cleanPath_def)
  have c: "validatePath (JStr s) =
        (if set (cleanPath s) \<inter> {CHR ''<'', CHR ''>'', CHR '':'', CHR 0x22, CHR ''|'', CHR ''?'', CHR ''*''} \<noteq> {}
         then Inl (Error (''Invalid characters in path: '' @ s))
         else Inr (cleanPath s))" if "s \<noteq> []"
    using that by (simp add: validatePath_def list_ex_invalid) (simp add: invalidPathChars_def)
  have d: "validatePath (JStr ''/docs/api'') = Inr ''docs/api''"
    "validatePath (JStr ''doc<s'') = Inl (Error ''Invalid characters in path: doc<s'')"
    "validatePath (JStr '''') = Inl (Error ''Path is required'')"
    by (simp_all add: validatePath_def cleanPath_def invalidPathChars_def)
  show ?thesis
    using a b c d by blast
qed

theorem validatePath_spec_witness:
  "\<not> isString (JNum (Finite 5)) \<and> validatePath (JNum (Finite 5)) = Inl (Error ''Path is required'') \<and>
   ''/a/b'' \<noteq> [] \<and> validatePath (JStr ''/a/b'') = Inr ''a/b''"
  using validatePath_spec [of "JNum (Finite 5)" "''/a/b''"]
  by (simp add: cleanPath_def)

section \<open>Properties of diffStrings\<close>



lemma splitOn_ne: "splitOn c s \<noteq> []"
  by (induction s) (auto split: list.splits)


section \<open>Properties of the GraphQL client\<close>

lemma foldl_join_append:
  "foldl (\<lambda>acc x. acc @ sep @ x) (a @ b) xs = a @ foldl (\<lambda>acc x. acc @ sep @ x) b xs"
  by (induction xs arbitrary: b) simp_all

lemma join_foldl: "join sep (m # ms) = foldl (\<lambda>acc x. acc @ sep @ x) m ms"
proof (induction ms arbitrary: m)
  case Nil
  then show ?case by simp
next
  case (Cons x xs)
  have "join sep (m # x # xs) = m @ sep @ foldl (\<lambda>acc x. acc @ sep @ x) x xs"
    by (simp add: Cons.IH)
  also have "\<dots> = foldl (\<lambda>acc x. acc @ sep @ x) (m @ sep @ x) xs"
    using foldl_join_append [of sep "m @ sep" x xs] by simp
  finally show ?case by simp
qed

lemma newGraphQLError_message: "newGraphQLError es = GraphQLError (entryMessages es) es"
  by (cases es) (simp_all add: newGraphQLError_def entryMessages_def join_foldl)

lemma graphql_resolved:
  "post q w = (Resolved resp, w') \<Longrightarrow> graphql post q w = (unwrap resp, w')"
  by (simp add: graphql_def interceptor_def)

lemma graphql_rejected:
  "post q w = (Rejected err, w') \<Longrightarrow>
   graphql post q w = (case interceptor (Rejected err) of Inl e \<Rightarrow> (Inl e, w') | Inr r \<Rightarrow> (unwrap r, w'))"
  by (simp add: graphql_def)

text \<open>
  C2, as amended. When the envelope holds a non-empty \<open>errors\<close>, \<open>graphql\<close> raises a
  \<open>GraphQLError\<close> carrying exactly that sequence, whether the envelope came in a successful
  response or in the response of an HTTP error, and the error's message is the messages of
  the entries joined by \<open>; \<close> in order. When the envelope came in a successful response and
  \<open>errors\<close> is absent or empty, \<open>graphql\<close> returns the envelope's \<open>data\<close>. When it came in the
  response of an HTTP error and \<open>errors\<close> is absent, the HTTP error itself is raised.
\<close>

theorem graphql_error_policy:
  "(post q w = (Resolved resp, w') \<and> response_data resp = Some env \<and>
      env_errors env = Some es \<and> es \<noteq> [] \<longrightarrow>
        graphql post q w = (Inl (GraphQLError (entryMessages es) es), w')) \<and>
   (post q w = (Rejected err, w') \<and> error_response err = Some resp \<and>
      response_data resp = Some env \<and> env_errors env = Some es \<and> es \<noteq> [] \<longrightarrow>
        graphql post q w = (Inl (GraphQLError (entryMessages es) es), w')) \<and>
   (post q w = (Resolved resp, w') \<and> response_data resp = Some env \<and>
      (env_errors env = None \<or> env_errors env = Some []) \<longrightarrow>
        graphql post q w = (Inr (env_data env), w')) \<and>
   (post q w = (Rejected err, w') \<and> error_response err = Some resp \<and>
      response_data resp = Some env \<and> env_errors env = None \<longrightarrow>
        graphql post q w = (Inl (AxiosError err), w')) \<and>
   entryMessages twoErrors = ''First error; Second error''"
proof -
  have a: "graphql post q w = (Inl (GraphQLError (entryMessages es) es), w')"
    if "post q w = (Resolved resp, w')" "response_data resp = Some env"
       "env_errors env = Some es" "es \<noteq> []"
    using that by (simp add: graphql_resolved unwrap_def newGraphQLError_message)
  have b: "graphql post q w = (Inl (GraphQLError (entryMessages es) es), w')"
    if "post q w = (Rejected err, w')" "error_response err = Some resp"
       "response_data resp = Some env" "env_errors env = Some es" "es \<noteq> []"
    using that
    by (simp add: graphql_rejected interceptor_def newGraphQLError_message)
  have c: "graphql post q w = (Inr (env_data env), w')"
    if "post q w = (Resolved resp, w')" "response_data resp = Some env"
       "env_errors env = None \<or> env_errors env = Some []"
    using that by (auto simp: graphql_resolved unwrap_def)
  have d: "graphql post q w = (Inl (AxiosError err), w')"
    if "post q w = (Rejected err, w')" "error_response err = Some resp"
       "response_data resp = Some env" "env_errors env = None"
    using that by (simp add: graphql_rejected interceptor_def)
  have e: "entryMessages twoErrors = ''First error; Second error''"
    by (simp add: entryMessages_def twoErrors_def)
  show ?thesis
    using a b c d e by blast
qed

theorem graphql_error_policy_witness:
  "graphql (constRemote (Rejected \<lparr>cause = ''Request failed with status code 400'',
      error_response = Some \<lparr>status = 400, response_data =
        Some \<lparr>env_errors = Some twoErrors, env_data = None\<rparr>\<rparr>\<rparr>)) QueryStatsList ()
     = (Inl (GraphQLError ''First error; Second error'' twoErrors), ()) \<and>
   graphql (constRemote (Resolved \<lparr>status = 200, response_data =
        Some \<lparr>env_errors = Some twoErrors, env_data = None\<rparr>\<rparr>)) QueryStatsList ()
     = (Inl (GraphQLError ''First error; Second error'' twoErrors), ()) \<and>
   graphql (constRemote (Resolved \<lparr>status = 200, response_data =
        Some \<lparr>env_errors = Some [], env_data = Some (DataList (Some []))\<rparr>\<rparr>)) QueryStatsList ()
     = (Inr (Some (DataList (Some []))), ()) \<and>
   graphql (constRemote (Rejected status500)) QueryStatsList () = (Inl (AxiosError status500), ())"
proof -
  let ?e400 = "\<lparr>cause = ''Request failed with status code 400'',
      error_response = Some \<lparr>status = 400, response_data =
        Some \<lparr>env_errors = Some twoErrors, env_data = None\<rparr>\<rparr>\<rparr>"
  let ?r200 = "\<lparr>status = 200, response_data = Some \<lparr>env_errors = Some twoErrors, env_data = None\<rparr>\<rparr>"
  let ?r200' = "\<lparr>status = 200, response_data =
        Some \<lparr>env_errors = Some [], env_data = Some (DataList (Some []))\<rparr>\<rparr>"
  have ne: "twoErrors \<noteq> []" by (simp add: twoErrors_def)
  show ?thesis
    using graphql_error_policy [of "constRemote (Rejected ?e400)" QueryStatsList "()" _ "()"
        _ twoErrors ?e400, where resp = "\<lparr>status = 400, response_data =
        Some \<lparr>env_errors = Some twoErrors, env_data = None\<rparr>\<rparr>"
        and env = "\<lparr>env_errors = Some twoErrors, env_data = None\<rparr>"]
      graphql_error_policy [of "constRemote (Resolved ?r200)" QueryStatsList "()" ?r200 "()"
        "\<lparr>env_errors = Some twoErrors, env_data = None\<rparr>" twoErrors]
      graphql_error_policy [of "constRemote (Resolved ?r200')" QueryStatsList "()" ?r200' "()"
        "\<lparr>env_errors = Some [], env_data = Some (DataList (Some []))\<rparr>"]
      graphql_error_policy [of "constRemote (Rejected status500)" QueryStatsList "()"
        "\<lparr>status = 500, response_data =
        Some \<lparr>env_errors = None, env_data = Some (DataList (Some []))\<rparr>\<rparr>" "()"
        "\<lparr>env_errors = None, env_data = Some (DataList (Some []))\<rparr>" _ status500]
      ne
    by (simp add: constRemote_def status500_def)
qed

text \<open>
  C2 as stated fails: an envelope without \<open>errors\<close> that arrives in an HTTP 500 response does
  not make \<open>graphql\<close> return the envelope's \<open>data\<close>; the HTTP error is raised.
\<close>

theorem graphql_http_error_counterexample:
  "error_response status500 =
     Some \<lparr>status = 500, response_data =
       Some \<lparr>env_errors = None, env_data = Some (DataList (Some []))\<rparr>\<rparr> \<and>
   graphql (constRemote (Rejected status500)) QueryStatsList () = (Inl (AxiosError status500), ()) \<and>
   graphql (constRemote (Rejected status500)) QueryStatsList () \<noteq> (Inr (Some (DataList (Some []))), ())"
  by (simp add: graphql_def constRemote_def interceptor_def status500_def)

section \<open>Properties of the mutations\<close>

lemma orElse_simps:
  "orElse (Some m) d = (if m \<noteq> [] then m else d)" "orElse None d = d"
  by (simp_all add: orElse_def)

lemma failed_result:
  "responseResult r = Some rr \<Longrightarrow> \<not> succeeded rr \<Longrightarrow>
   \<not> result_succeeded (Some r) \<and> result_message (Some r) = rr_message rr"
  by (simp add: result_succeeded_def result_message_def)

text \<open>
  \<open>getPage\<close> called with a number validates it again, through its string form, and asks for
  the page under the result; the error for an absent page names the number it was given.
\<close>

lemma getPage_by_id:
  "getPage cfg post (JNum n) \<lparr>gp_withChildren = None, gp_locale = None\<rparr> w =
     (case validateId (JNum n) of
        Inl e \<Rightarrow> (Inl e, w)
      | Inr m \<Rightarrow>
          (case graphql post (QuerySingle m) w of
             (Inl e, w1) \<Rightarrow> (Inl e, w1)
           | (Inr d, w1) \<Rightarrow>
               (case pages_single d of
                  None \<Rightarrow> (Inl (Error (''Page not found: '' @ numberToString n)), w1)
                | Some p \<Rightarrow> (Inr (flattenTags p), w1))))"
  by (simp add: getPage_def Let_def dflt_def io_bind_def io_lift_def io_return_def io_throw_def
      split: prod.splits sum.splits option.splits)


lemma updatePage_eq:
  "validateId v = Inr n \<Longrightarrow> validateId (JNum n) = Inr m \<Longrightarrow>
   updatePage cfg post v opts w =
     (case graphql post (QuerySingle m) w of
        (Inl e, w1) \<Rightarrow> (Inl e, w1)
      | (Inr d1, w1) \<Rightarrow>
          (case pages_single d1 of
             None \<Rightarrow> (Inl (Error (''Page not found: '' @ numberToString n)), w1)
           | Some p \<Rightarrow>
               (case graphql post (MutationUpdate (mergedArgs n opts (flattenTags p))) w1 of
                  (Inl e, w2) \<Rightarrow> (Inl e, w2)
                | (Inr d2, w2) \<Rightarrow>
                    (if \<not> result_succeeded (pages_update d2)
                     then Inl (Error (orElse (result_message (pages_update d2)) ''Failed to update page''))
                     else Inr (case pages_update d2 of Some r \<Rightarrow> result_page r | None \<Rightarrow> None),
                     w2))))"
  by (simp add: updatePage_def getPage_by_id Let_def io_bind_def io_lift_def io_return_def
       io_throw_def split: prod.splits sum.splits option.splits)


lemma graphql_logging:
  "graphql (loggingRemote answer) q sent =
     (case interceptor (answer q) of
        Inl e \<Rightarrow> (Inl e, sent @ [q]) | Inr resp \<Rightarrow> (unwrap resp, sent @ [q]))"
  by (simp add: graphql_def loggingRemote_def)

lemma graphql_ok: "interceptor (ok x) = Inr \<lparr>status = 200, response_data = Some \<lparr>env_errors = None, env_data = Some x\<rparr>\<rparr>"
  by (simp add: ok_def interceptor_def)

lemma unwrap_ok: "unwrap \<lparr>status = 200, response_data = Some \<lparr>env_errors = None, env_data = Some x\<rparr>\<rparr> = Inr (Some x)"
  by (simp add: unwrap_def)

lemma validateId_7: "validateId (JStr ''7'') = Inr (Finite 7)"
  using validateId_digits [of "''7''" "[]"]
  by (simp add: isDigit_def digitsVal_def digitVal_def)

lemma validateId_JNum_7: "validateId (JNum (Finite 7)) = Inr (Finite 7)"
  by (simp add: validateId_Finite)

lemma validatePath_docs: "validatePath (JStr ''/docs/api'') = Inr ''docs/api''"
  by (simp add: validatePath_def cleanPath_def invalidPathChars_def)

lemma sanitizeString_plain:
  "sanitizeString (JStr ''docs/api'') = ''docs/api''"
  "sanitizeString (JStr ''docs/new'') = ''docs/new''"
  "sanitizeString (JStr ''markdown'') = ''markdown''"
  "sanitizeString (JStr ''en'') = ''en''"
  by (simp_all add: sanitizeString_def replaceAll_def)

text \<open>
  C3, as amended. For each of the six mutations, once the arguments are valid and the
  remote's answer to the mutation that the operation sends decodes to a result whose
  \<open>responseResult.succeeded\<close> is false, the operation raises an error whose message is the
  remote's message when that is present and not empty, and the operation's own default
  otherwise (\<open>Failed to create page\<close>, ...). The mutation is the one built from the
  arguments: for \<open>createPage\<close> the options with their defaults and the sanitized path, editor
  and locale; for \<open>updatePage\<close> the merge of the options with the page fetched before, in the
  world that the fetch left; for \<open>movePage\<close> the validated id with the sanitized path and
  locale. \<open>createPage\<close> answered with \<open>{succeeded: false, message: "Path already exists"}\<close>
  raises an error with exactly the message \<open>Path already exists\<close>.
\<close>

theorem mutation_failure_message:
  "(validatePath path = Inr validPath \<and>
      graphql post (MutationCreate
         \<lparr>ca_content = dflt (cp_content copts) [],
          ca_description = dflt (cp_description copts) [],
          ca_editor = sanitizeString
            (JStr (dflt (cp_editor copts) (orElse (defaultEditor cfg) ''markdown''))),
          ca_isPrivate = dflt (cp_isPrivate copts) False,
          ca_isPublished = dflt (cp_isPublished copts) True,
          ca_locale = sanitizeString
            (JStr (dflt (cp_locale copts) (orElse (defaultLocale cfg) ''en''))),
          ca_path = sanitizeString (JStr validPath),
          ca_tags = dflt (cp_tags copts) [],
          ca_title = title\<rparr>) w = (Inr d, w') \<and>
      pages_create d = Some r \<and> responseResult r = Some rr \<and> \<not> succeeded rr \<longrightarrow>
        createPage cfg post path title copts w
          = (Inl (Error (orElse (rr_message rr) ''Failed to create page'')), w')) \<and>
   (validateId v = Inr n \<and> validateId (JNum n) = Inr m \<and>
      graphql post (QuerySingle m) w = (Inr d1, w1) \<and> pages_single d1 = Some p \<and>
      graphql post (MutationUpdate (mergedArgs n uopts (flattenTags p))) w1 = (Inr d, w') \<and>
      pages_update d = Some r \<and> responseResult r = Some rr \<and> \<not> succeeded rr \<longrightarrow>
        updatePage cfg post v uopts w
          = (Inl (Error (orElse (rr_message rr) ''Failed to update page'')), w')) \<and>
   (validateId v = Inr n \<and> validatePath path = Inr validPath \<and>
      graphql post (MutationMove n (sanitizeString (JStr validPath))
         (sanitizeString (JStr (dflt loc (orElse (defaultLocale cfg) ''en''))))) w = (Inr d, w') \<and>
      pages_move d = Some r \<and> responseResult r = Some rr \<and> \<not> succeeded rr \<longrightarrow>
        movePage cfg post v path loc w
          = (Inl (Error (orElse (rr_message rr) ''Failed to move page'')), w')) \<and>
   (validateId v = Inr n \<and> graphql post (MutationDelete n) w = (Inr d, w') \<and>
      pages_delete d = Some r \<and> responseResult r = Some rr \<and> \<not> succeeded rr \<longrightarrow>
        deletePage post v w
          = (Inl (Error (orElse (rr_message rr) ''Failed to delete page'')), w')) \<and>
   (validateId v = Inr n \<and> graphql post (MutationDeleteAsset n) w = (Inr d, w') \<and>
      assets_deleteAsset d = Some r \<and> responseResult r = Some rr \<and> \<not> succeeded rr \<longrightarrow>
        deleteAsset post v w
          = (Inl (Error (orElse (rr_message rr) ''Failed to delete asset'')), w')) \<and>
   (validateId v = Inr n \<and> validateId v2 = Inr n2 \<and>
      graphql post (MutationRestore n n2) w = (Inr d, w') \<and>
      pages_restore d = Some r \<and> responseResult r = Some rr \<and> \<not> succeeded rr \<longrightarrow>
        revertPage post v v2 w
          = (Inl (Error (orElse (rr_message rr) ''Failed to revert page'')), w')) \<and>
   (\<forall>m fallback. orElse (Some m) fallback = (if m \<noteq> [] then m else fallback)) \<and>
   (\<forall>fallback. orElse None fallback = fallback) \<and>
   (validatePath path = Inr validPath \<longrightarrow>
      createPage cfg (constRemote (ok (DataCreate (failed (Some ''Path already exists'')))))
          path title copts w
        = (Inl (Error ''Path already exists''), w))"
  (is "?Create \<and> ?Update \<and> ?Move \<and> ?Delete \<and> ?Asset \<and> ?Revert \<and> ?O1 \<and> ?O2 \<and> ?Example")
proof -
  have create: ?Create
  proof (intro impI, elim conjE)
    assume h: "validatePath path = Inr validPath" "pages_create d = Some r"
      "responseResult r = Some rr" "\<not> succeeded rr"
    assume g: "graphql post (MutationCreate
         \<lparr>ca_content = dflt (cp_content copts) [],
          ca_description = dflt (cp_description copts) [],
          ca_editor = sanitizeString
            (JStr (dflt (cp_editor copts) (orElse (defaultEditor cfg) ''markdown''))),
          ca_isPrivate = dflt (cp_isPrivate copts) False,
          ca_isPublished = dflt (cp_isPublished copts) True,
          ca_locale = sanitizeString
            (JStr (dflt (cp_locale copts) (orElse (defaultLocale cfg) ''en''))),
          ca_path = sanitizeString (JStr validPath),
          ca_tags = dflt (cp_tags copts) [],
          ca_title = title\<rparr>) w = (Inr d, w')"
    show "createPage cfg post path title copts w
          = (Inl (Error (orElse (rr_message rr) ''Failed to create page'')), w')"
      using h failed_result [of r rr]
      by (simp add: createPage_def Let_def io_bind_def io_lift_def io_throw_def g)
  qed
  have update: ?Update
  proof (intro impI, elim conjE)
    assume h: "validateId v = Inr n" "validateId (JNum n) = Inr m"
      and g: "graphql post (QuerySingle m) w = (Inr d1, w1)" "pages_single d1 = Some p"
        "graphql post (MutationUpdate (mergedArgs n uopts (flattenTags p))) w1 = (Inr d, w')"
      and r: "pages_update d = Some r" "responseResult r = Some rr" "\<not> succeeded rr"
    show "updatePage cfg post v uopts w
          = (Inl (Error (orElse (rr_message rr) ''Failed to update page'')), w')"
      using r failed_result [of r rr] by (simp add: updatePage_eq [OF h] g)
  qed
  have move: ?Move
  proof (intro impI, elim conjE)
    assume h: "validateId v = Inr n" "validatePath path = Inr validPath"
      "pages_move d = Some r" "responseResult r = Some rr" "\<not> succeeded rr"
    assume g: "graphql post (MutationMove n (sanitizeString (JStr validPath))
         (sanitizeString (JStr (dflt loc (orElse (defaultLocale cfg) ''en''))))) w = (Inr d, w')"
    show "movePage cfg post v path loc w
          = (Inl (Error (orElse (rr_message rr) ''Failed to move page'')), w')"
      using h failed_result [of r rr]
      by (simp add: movePage_def Let_def io_bind_def io_lift_def io_throw_def g)
  qed
  have delete: ?Delete
  proof (intro impI, elim conjE)
    assume h: "validateId v = Inr n" "graphql post (MutationDelete n) w = (Inr d, w')"
       "pages_delete d = Some r" "responseResult r = Some rr" "\<not> succeeded rr"
    show "deletePage post v w
          = (Inl (Error (orElse (rr_message rr) ''Failed to delete page'')), w')"
      using h failed_result [of r rr]
      by (simp add: deletePage_def Let_def io_bind_def io_lift_def io_throw_def)
  qed
  have asset: ?Asset
  proof (intro impI, elim conjE)
    assume h: "validateId v = Inr n" "graphql post (MutationDeleteAsset n) w = (Inr d, w')"
       "assets_deleteAsset d = Some r" "responseResult r = Some rr" "\<not> succeeded rr"
    show "deleteAsset post v w
          = (Inl (Error (orElse (rr_message rr) ''Failed to delete asset'')), w')"
      using h failed_result [of r rr]
      by (simp add: deleteAsset_def Let_def io_bind_def io_lift_def io_throw_def)
  qed
  have revert: ?Revert
  proof (intro impI, elim conjE)
    assume h: "validateId v = Inr n" "validateId v2 = Inr n2"
       "graphql post (MutationRestore n n2) w = (Inr d, w')"
       "pages_restore d = Some r" "responseResult r = Some rr" "\<not> succeeded rr"
    show "revertPage post v v2 w
          = (Inl (Error (orElse (rr_message rr) ''Failed to revert page'')), w')"
      using h failed_result [of r rr]
      by (simp add: revertPage_def Let_def io_bind_def io_lift_def io_throw_def)
  qed
  have o1: ?O1 and o2: ?O2
    by (simp_all add: orElse_def)
  have example: ?Example
  proof
    assume h: "validatePath path = Inr validPath"
    have g: "graphql (constRemote (ok x)) q w = (Inr (Some x), w)" for x and q :: request
      by (simp add: graphql_def constRemote_def ok_def interceptor_def unwrap_def)
    show "createPage cfg (constRemote (ok (DataCreate (failed (Some ''Path already exists'')))))
          path title copts w = (Inl (Error ''Path already exists''), w)"
      using h
      by (simp add: createPage_def Let_def io_bind_def io_lift_def io_throw_def g
          pages_create_def failed_def result_succeeded_def result_message_def orElse_def)
  qed
  show ?thesis
    by (intro conjI create update move delete asset revert o1 o2 example)
qed

theorem mutation_failure_message_witness:
  "createPage sampleConfig (loggingRemote (sampleAnswer (failed None)))
       (JStr ''/docs/api'') ''API'' noCreateOptions []
     = (Inl (Error ''Failed to create page''),
        [MutationCreate \<lparr>ca_content = [], ca_description = [], ca_editor = ''markdown'',
           ca_isPrivate = False, ca_isPublished = True, ca_locale = ''en'',
           ca_path = ''docs/api'', ca_tags = [], ca_title = ''API''\<rparr>]) \<and>
   updatePage sampleConfig (loggingRemote (sampleAnswer (failed (Some ''Page is locked''))))
       (JStr ''7'') newContent []
     = (Inl (Error ''Page is locked''),
        [QuerySingle (Finite 7),
         MutationUpdate \<lparr>ua_id = Finite 7, ua_content = Some ''new text'', ua_description = [],
           ua_isPublished = Some True, ua_tags = [''api'', ''docs''], ua_title = Some ''API''\<rparr>]) \<and>
   movePage sampleConfig (loggingRemote (sampleAnswer (failed (Some ''No such page''))))
       (JStr ''7'') (JStr ''/docs/new'') None []
     = (Inl (Error ''No such page''), [MutationMove (Finite 7) ''docs/new'' ''en''])"
proof -
  let ?rr = "\<lambda>m. \<lparr>succeeded = False, errorCode = None, rr_message = m\<rparr>"
  let ?cargs = "\<lparr>ca_content = [], ca_description = [], ca_editor = ''markdown'',
           ca_isPrivate = False, ca_isPublished = True, ca_locale = ''en'',
           ca_path = ''docs/api'', ca_tags = [], ca_title = ''API''\<rparr>"
  let ?uargs = "\<lparr>ua_id = Finite 7, ua_content = Some ''new text'', ua_description = [],
           ua_isPublished = Some True, ua_tags = [''api'', ''docs''], ua_title = Some ''API''\<rparr>"
  have g: "graphql (loggingRemote (sampleAnswer r)) (MutationCreate a) sent
             = (Inr (Some (DataCreate r)), sent @ [MutationCreate a])"
    "graphql (loggingRemote (sampleAnswer r)) (MutationUpdate b) sent
             = (Inr (Some (DataUpdate r)), sent @ [MutationUpdate b])"
    "graphql (loggingRemote (sampleAnswer r)) (MutationMove n sp sl) sent
             = (Inr (Some (DataMove r)), sent @ [MutationMove n sp sl])"
    "graphql (loggingRemote (sampleAnswer r)) (QuerySingle (Finite 7)) sent
             = (Inr (Some (DataSingle (Some samplePage))), sent @ [QuerySingle (Finite 7)])"
    for r a b n sp sl sent
    by (simp_all add: graphql_logging sampleAnswer_def graphql_ok unwrap_ok)
  have p: "pages_create (Some (DataCreate r)) = Some r" "pages_update (Some (DataUpdate r)) = Some r"
    "pages_move (Some (DataMove r)) = Some r"
    "pages_single (Some (DataSingle (Some samplePage))) = Some samplePage" for r
    by (simp_all add: pages_create_def pages_update_def pages_move_def pages_single_def)
  have vp: "validatePath (JStr ''/docs/new'') = Inr ''docs/new''"
    by (simp add: validatePath_def cleanPath_def invalidPathChars_def)
  have ca: "\<lparr>ca_content = dflt (cp_content noCreateOptions) [],
          ca_description = dflt (cp_description noCreateOptions) [],
          ca_editor = sanitizeString
            (JStr (dflt (cp_editor noCreateOptions) (orElse (defaultEditor sampleConfig) ''markdown''))),
          ca_isPrivate = dflt (cp_isPrivate noCreateOptions) False,
          ca_isPublished = dflt (cp_isPublished noCreateOptions) True,
          ca_locale = sanitizeString
            (JStr (dflt (cp_locale noCreateOptions) (orElse (defaultLocale sampleConfig) ''en''))),
          ca_path = sanitizeString (JStr ''docs/api''),
          ca_tags = dflt (cp_tags noCreateOptions) [],
          ca_title = ''API''\<rparr> = ?cargs"
    by (simp add: noCreateOptions_def sampleConfig_def dflt_def orElse_def sanitizeString_plain)
  have ua: "mergedArgs (Finite 7) newContent (flattenTags samplePage) = ?uargs"
    by (simp add: mergedArgs_def flattenTags_def nullish_def dflt_def newContent_def samplePage_def)
  have loc: "sanitizeString (JStr (dflt None (orElse (defaultLocale sampleConfig) ''en''))) = ''en''"
    by (simp add: sampleConfig_def dflt_def orElse_def sanitizeString_plain)
  have 1: "createPage sampleConfig (loggingRemote (sampleAnswer (failed None)))
       (JStr ''/docs/api'') ''API'' noCreateOptions []
     = (Inl (Error ''Failed to create page''), [MutationCreate ?cargs])"
    using mutation_failure_message
        [where post = "loggingRemote (sampleAnswer (failed None))" and w = "[]"
           and w' = "[MutationCreate ?cargs]" and r = "failed None" and rr = "?rr None"
           and d = "Some (DataCreate (failed None))" and path = "JStr ''/docs/api''"
           and validPath = "''docs/api''" and cfg = sampleConfig and title = "''API''"
           and copts = noCreateOptions]
    by (simp add: g p ca validatePath_docs failed_def orElse_simps)
  have 2: "updatePage sampleConfig (loggingRemote (sampleAnswer (failed (Some ''Page is locked''))))
       (JStr ''7'') newContent []
     = (Inl (Error ''Page is locked''), [QuerySingle (Finite 7), MutationUpdate ?uargs])"
    using mutation_failure_message
        [where post = "loggingRemote (sampleAnswer (failed (Some ''Page is locked'')))"
           and w = "[]" and ?w1.0 = "[QuerySingle (Finite 7)]"
           and w' = "[QuerySingle (Finite 7), MutationUpdate ?uargs]"
           and r = "failed (Some ''Page is locked'')" and rr = "?rr (Some ''Page is locked'')"
           and d = "Some (DataUpdate (failed (Some ''Page is locked'')))"
           and v = "JStr ''7''" and n = "Finite 7" and m = "Finite 7" and p = samplePage
           and ?d1.0 = "Some (DataSingle (Some samplePage))" and cfg = sampleConfig
           and uopts = newContent]
    by (simp add: g p ua validateId_7 validateId_JNum_7 failed_def orElse_simps)
  have 3: "movePage sampleConfig (loggingRemote (sampleAnswer (failed (Some ''No such page''))))
       (JStr ''7'') (JStr ''/docs/new'') None []
     = (Inl (Error ''No such page''), [MutationMove (Finite 7) ''docs/new'' ''en''])"
    using mutation_failure_message
        [where post = "loggingRemote (sampleAnswer (failed (Some ''No such page'')))"
           and w = "[]" and w' = "[MutationMove (Finite 7) ''docs/new'' ''en'']"
           and r = "failed (Some ''No such page'')" and rr = "?rr (Some ''No such page'')"
           and d = "Some (DataMove (failed (Some ''No such page'')))"
           and v = "JStr ''7''" and n = "Finite 7" and path = "JStr ''/docs/new''"
           and validPath = "''docs/new''" and cfg = sampleConfig and loc = None]
    by (simp add: g p vp loc validateId_7 sanitizeString_plain failed_def orElse_simps)
  show ?thesis
    by (intro conjI 1 2 3)
qed

text \<open>
  C3 as stated fails: a result with \<open>succeeded\<close> false whose message is present but empty
  makes \<open>createPage\<close> raise \<open>Failed to create page\<close>, not the remote's (empty) message.
\<close>

theorem mutation_empty_message_counterexample:
  "rr_message \<lparr>succeeded = False, errorCode = None, rr_message = Some []\<rparr> = Some [] \<and>
   createPage sampleConfig
       (constRemote (ok (DataCreate \<lparr>responseResult =
            Some \<lparr>succeeded = False, errorCode = None, rr_message = Some []\<rparr>,
          result_page = None\<rparr>)))
       (JStr ''/docs/api'') ''API'' noCreateOptions ()
     = (Inl (Error ''Failed to create page''), ()) \<and>
   createPage sampleConfig
       (constRemote (ok (DataCreate \<lparr>responseResult =
            Some \<lparr>succeeded = False, errorCode = None, rr_message = Some []\<rparr>,
          result_page = None\<rparr>)))
       (JStr ''/docs/api'') ''API'' noCreateOptions ()
     \<noteq> (Inl (Error []), ())"
  by (simp add: createPage_def Let_def io_bind_def io_lift_def io_throw_def validatePath_docs
      graphql_def constRemote_def graphql_ok unwrap_ok pages_create_def result_succeeded_def
      result_message_def orElse_def)




section \<open>Properties of getStats\<close>

lemma map_of_replaceProp:
  "map_of (replaceProp obj k v) l = (if l = k \<and> map_of obj k \<noteq> None then Some v else map_of obj l)"
  by (induction obj) auto

lemma map_of_insertIndex:
  "map_of obj k = None \<Longrightarrow>
   map_of (insertIndex obj k v) l = (if l = k then Some v else map_of obj l)"
  by (induction obj) (auto split: if_splits)

lemma not_proto: "k \<notin> set objectPrototypeNames \<Longrightarrow> k \<noteq> ''__proto__''"
  by (auto simp: objectPrototypeNames_def)

lemma map_of_assign:
  "k \<noteq> ''__proto__'' \<Longrightarrow>
   map_of (assign obj k v) l = (if l = k then Some v else map_of obj l)"
  by (auto simp: assign_def map_of_replaceProp map_of_insertIndex map_add_def
      split: option.splits)

lemma keys_replaceProp: "map fst (replaceProp obj k v) = map fst obj"
  by (induction obj) auto

lemma keys_insertIndex: "set (map fst (insertIndex obj k v)) = insert k (set (map fst obj))"
proof (induction obj)
  case Nil
  then show ?case by simp
next
  case (Cons a obj)
  obtain k' v' where a: "a = (k', v')" by (cases a)
  show ?case
  proof (cases "isArrayIndex k' \<and> digitsVal k' < digitsVal k")
    case True
    then have "insertIndex (a # obj) k v = (k', v') # insertIndex obj k v"
      by (simp add: a)
    then show ?thesis
      using Cons.IH by (simp add: a insert_commute)
  next
    case False
    then have "insertIndex (a # obj) k v = (k, v) # (k', v') # obj"
      by (auto simp: a)
    then show ?thesis
      by (simp add: a)
  qed
qed

lemma distinct_insertIndex:
  "k \<notin> set (map fst obj) \<Longrightarrow> distinct (map fst obj) \<Longrightarrow>
   distinct (map fst (insertIndex obj k v))"
proof (induction obj)
  case Nil
  then show ?case by simp
next
  case (Cons a obj)
  obtain k' v' where a: "a = (k', v')" by (cases a)
  have "k' \<notin> set (map fst (insertIndex obj k v))"
    using Cons.prems a by (simp only: keys_insertIndex) auto
  with Cons a show ?case by auto
qed

lemma map_of_None_keys: "map_of obj k = None \<longleftrightarrow> k \<notin> set (map fst obj)"
  by (simp add: map_of_eq_None_iff)

lemma distinct_assign:
  "distinct (map fst obj) \<Longrightarrow> distinct (map fst (assign obj k v))"
  by (auto simp: assign_def keys_replaceProp distinct_insertIndex map_of_None_keys
      simp del: set_map)

lemma counts_Cons:
  "counts ((k, Count n) # obj) = n # counts obj"
  "counts ((k, MemberText m j) # obj) = counts obj"
  "counts [] = []"
  by (simp_all add: counts_def)

lemma sum_counts_Cons:
  "sum_list (counts ((k, v) # obj))
     = (case v of Count n \<Rightarrow> n | MemberText m j \<Rightarrow> 0) + sum_list (counts obj)"
  by (simp add: counts_def split: propval.splits)

lemma counts_append: "counts (xs @ ys) = counts xs @ counts ys"
  by (simp add: counts_def)

lemma onlyCounts_Cons:
  "onlyCounts ((k, v) # obj) \<longleftrightarrow> (\<exists>n. v = Count n) \<and> onlyCounts obj"
  "onlyCounts []"
  by (auto simp: onlyCounts_def split: propval.splits)

lemma onlyCounts_map_of: "onlyCounts obj \<Longrightarrow> map_of obj k = Some v \<Longrightarrow> \<exists>n. v = Count n"
  by (induction obj) (auto simp: onlyCounts_Cons split: if_splits)

lemma sum_replaceProp:
  "map_of obj k = Some (Count n) \<Longrightarrow>
   sum_list (counts (replaceProp obj k (Count (Suc n)))) = sum_list (counts obj) + 1"
proof (induction obj)
  case Nil
  then show ?case by simp
next
  case (Cons a obj)
  obtain k' v' where a: "a = (k', v')" by (cases a)
  show ?case
  proof (cases "k' = k")
    case True
    with Cons.prems a show ?thesis by (simp add: counts_Cons)
  next
    case False
    with Cons.prems a have "map_of obj k = Some (Count n)" by simp
    then have "sum_list (counts (replaceProp obj k (Count (Suc n)))) = sum_list (counts obj) + 1"
      by (rule Cons.IH)
    moreover have "replaceProp (a # obj) k (Count (Suc n)) = (k', v') # replaceProp obj k (Count (Suc n))"
      using False a by simp
    ultimately show ?thesis
      by (simp add: a sum_counts_Cons)
  qed
qed

lemma sum_insertIndex:
  "sum_list (counts (insertIndex obj k (Count m))) = sum_list (counts obj) + m"
proof (induction obj)
  case Nil
  then show ?case by (simp add: counts_Cons)
next
  case (Cons a obj)
  obtain k' v' where a: "a = (k', v')" by (cases a)
  show ?case
  proof (cases "isArrayIndex k' \<and> digitsVal k' < digitsVal k")
    case True
    then have "insertIndex (a # obj) k (Count m) = (k', v') # insertIndex obj k (Count m)"
      by (simp add: a)
    then show ?thesis
      using Cons.IH by (simp add: a sum_counts_Cons)
  next
    case False
    then have "insertIndex (a # obj) k (Count m) = (k, Count m) # (k', v') # obj"
      by (auto simp: a)
    then show ?thesis
      by (simp add: a sum_counts_Cons)
  qed
qed

lemma onlyCounts_replaceProp:
  "onlyCounts obj \<Longrightarrow> onlyCounts (replaceProp obj k (Count m))"
  by (induction obj) (auto simp: onlyCounts_Cons)

lemma onlyCounts_insertIndex:
  "onlyCounts obj \<Longrightarrow> onlyCounts (insertIndex obj k (Count m))"
  by (induction obj) (auto simp: onlyCounts_Cons)

lemma onlyCounts_append: "onlyCounts (xs @ ys) \<longleftrightarrow> onlyCounts xs \<and> onlyCounts ys"
  by (simp add: onlyCounts_def)

lemma plusOne_count:
  assumes "k \<notin> set objectPrototypeNames" and "onlyCounts obj"
  shows "plusOne obj k = Count ((case map_of obj k of Some (Count n) \<Rightarrow> n | _ \<Rightarrow> 0) + 1)"
proof (cases "map_of obj k")
  case None
  with assms(1) show ?thesis by (simp add: plusOne_def)
next
  case (Some v)
  with onlyCounts_map_of [OF assms(2) Some] show ?thesis
    by (auto simp: plusOne_def)
qed

lemma sum_increment:
  assumes "k \<notin> set objectPrototypeNames" and "onlyCounts obj"
  shows "sum_list (counts (increment obj k)) = sum_list (counts obj) + 1"
proof (cases "map_of obj k")
  case None
  with assms(1) show ?thesis
    by (simp add: increment_def plusOne_def assign_def not_proto sum_insertIndex
        counts_append counts_Cons)
next
  case (Some v)
  with onlyCounts_map_of [OF assms(2) Some] obtain n where n: "map_of obj k = Some (Count n)"
    by auto
  then show ?thesis
    by (simp add: increment_def plusOne_def assign_def sum_replaceProp)
qed

lemma onlyCounts_increment:
  assumes "k \<notin> set objectPrototypeNames" and "onlyCounts obj"
  shows "onlyCounts (increment obj k)"
  unfolding increment_def plusOne_count [OF assms]
  using assms(2)
  by (simp add: assign_def onlyCounts_replaceProp onlyCounts_insertIndex onlyCounts_append
      onlyCounts_Cons)

lemma distinct_increment:
  "distinct (map fst obj) \<Longrightarrow> distinct (map fst (increment obj k))"
  by (simp add: increment_def distinct_assign)

lemma map_of_increment:
  assumes "k \<notin> set objectPrototypeNames" and "onlyCounts obj"
  shows "map_of (increment obj k) l =
     (if l = k then Some (Count ((case map_of obj k of Some (Count n) \<Rightarrow> n | _ \<Rightarrow> 0) + 1))
      else map_of obj l)"
  unfolding increment_def plusOne_count [OF assms]
  by (simp add: map_of_assign not_proto [OF assms(1)])

lemma countPage_fields [simp]:
  "totalPages (countPage st p) = totalPages st"
  "publishedPages (countPage st p) = publishedPages st"
  "draftPages (countPage st p) = draftPages st"
  "locales (countPage st p) = increment (locales st) (stub_locale p)"
  by (simp_all add: countPage_def)

lemma foldl_countPage_fields [simp]:
  "totalPages (foldl countPage st ps) = totalPages st"
  "publishedPages (foldl countPage st ps) = publishedPages st"
  "draftPages (foldl countPage st ps) = draftPages st"
  by (induction ps arbitrary: st) simp_all

lemma foldl_countPage_distinct:
  "distinct (map fst (locales st)) \<Longrightarrow> distinct (map fst (locales (foldl countPage st ps)))"
  by (induction ps arbitrary: st) (simp_all add: distinct_increment)

lemma foldl_countPage_onlyCounts:
  "\<forall>p\<in>set ps. stub_locale p \<notin> set objectPrototypeNames \<Longrightarrow> onlyCounts (locales st) \<Longrightarrow>
   onlyCounts (locales (foldl countPage st ps))"
  by (induction ps arbitrary: st) (simp_all add: onlyCounts_increment)

lemma foldl_countPage_sum:
  "\<forall>p\<in>set ps. stub_locale p \<notin> set objectPrototypeNames \<Longrightarrow> onlyCounts (locales st) \<Longrightarrow>
   sum_list (counts (locales (foldl countPage st ps)))
     = sum_list (counts (locales st)) + length ps"
  by (induction ps arbitrary: st) (simp_all add: sum_increment onlyCounts_increment)

lemma foldl_countPage_map_of:
  "\<forall>p\<in>set ps. stub_locale p \<notin> set objectPrototypeNames \<Longrightarrow> onlyCounts (locales st) \<Longrightarrow>
   map_of (locales (foldl countPage st ps)) l =
     (if localeCount ps l = 0 then map_of (locales st) l
      else Some (Count ((case map_of (locales st) l of Some (Count n) \<Rightarrow> n | _ \<Rightarrow> 0)
                        + localeCount ps l)))"
proof (induction ps arbitrary: st)
  case Nil
  then show ?case by (simp add: localeCount_def)
next
  case (Cons p ps)
  from Cons.prems have 1: "stub_locale p \<notin> set objectPrototypeNames"
    and 2: "\<forall>p\<in>set ps. stub_locale p \<notin> set objectPrototypeNames"
    by simp_all
  have 3: "onlyCounts (locales (countPage st p))"
    using 1 Cons.prems(2) by (simp add: onlyCounts_increment)
  show ?case
    using Cons.IH [OF 2 3]
    by (simp add: map_of_increment [OF 1 Cons.prems(2)]) (simp add: localeCount_def)
qed

lemma computeStats_props:
  "totalPages (computeStats ps) = length ps"
  "publishedPages (computeStats ps) = length (filter (\<lambda>p. stub_isPublished p) ps)"
  "draftPages (computeStats ps) = length (filter (\<lambda>p. \<not> stub_isPublished p) ps)"
  "publishedPages (computeStats ps) + draftPages (computeStats ps) = totalPages (computeStats ps)"
  "distinct (map fst (locales (computeStats ps)))"
  by (simp_all add: computeStats_def foldl_countPage_distinct sum_length_filter_compl)

lemma computeStats_locales:
  assumes "\<forall>p\<in>set ps. stub_locale p \<notin> set objectPrototypeNames"
  shows "onlyCounts (locales (computeStats ps))"
    "sum_list (counts (locales (computeStats ps))) = totalPages (computeStats ps)"
    "map_of (locales (computeStats ps)) l =
       (if localeCount ps l = 0 then None else Some (Count (localeCount ps l)))"
  using assms
  by (simp_all add: computeStats_def foldl_countPage_sum foldl_countPage_onlyCounts
      foldl_countPage_map_of onlyCounts_Cons counts_Cons)

lemma getStats_eq:
  "graphql post QueryStatsList w = (Inr d, w') \<Longrightarrow>
   getStats post w = (Inr (computeStats (dflt (pages_list d) [])), w')"
  by (simp add: getStats_def io_bind_def io_return_def)

text \<open>
  C10 as stated fails: of two published pages with the locales \<open>en\<close> and \<open>__proto__\<close> the
  second is counted in no locale bucket, since \<open>stats.locales['__proto__'] = ...\<close> creates
  no property; \<open>locales\<close> is \<open>{en: 1}\<close>, whose counts sum to 1, while \<open>totalPages\<close> is 2.
\<close>

theorem getStats_inherited_name_counterexample:
  "getStats (constRemote (ok (DataList (Some protoPages)))) ()
     = (Inr \<lparr>totalPages = 2, publishedPages = 2, draftPages = 0,
             locales = [(''en'', Count 1)], topTags = []\<rparr>, ()) \<and>
   sum_list (counts [(''en'', Count 1)]) = 1 \<and>
   sum_list (counts [(''en'', Count 1)]) \<noteq> 2"
  by (simp add: getStats_def io_bind_def io_return_def graphql_def constRemote_def ok_def
      interceptor_def unwrap_def pages_list_def dflt_def computeStats_def protoPages_def
      countPage_def increment_def plusOne_def assign_def objectPrototypeNames_def
      isArrayIndex_def isDigit_def counts_def)

text \<open>
  C10, as amended. For every page list the remote returns to \<open>getStats\<close>,
  \<open>publishedPages + draftPages = totalPages\<close>: the two publish counts are the numbers of
  published and unpublished pages. When no page's locale is one of the names that every
  object inherits (\<open>constructor\<close>, \<open>toString\<close>, \<open>__proto__\<close>, ...), the values in \<open>locales\<close> are
  counts that sum to \<open>totalPages\<close>, and each page is counted in exactly one locale bucket:
  the locale keys are distinct and each locale's count is the number of pages with that
  locale.
\<close>

theorem getStats_partition:
  "graphql post QueryStatsList w = (Inr d, w') \<longrightarrow>
     (\<exists>st. getStats post w = (Inr st, w') \<and>
        totalPages st = length (dflt (pages_list d) []) \<and>
        publishedPages st = length (filter (\<lambda>p. stub_isPublished p) (dflt (pages_list d) [])) \<and>
        draftPages st = length (filter (\<lambda>p. \<not> stub_isPublished p) (dflt (pages_list d) [])) \<and>
        publishedPages st + draftPages st = totalPages st \<and>
        distinct (map fst (locales st)) \<and>
        ((\<forall>p\<in>set (dflt (pages_list d) []). stub_locale p \<notin> set objectPrototypeNames) \<longrightarrow>
           onlyCounts (locales st) \<and>
           sum_list (counts (locales st)) = totalPages st \<and>
           (\<forall>l. map_of (locales st) l =
              (if localeCount (dflt (pages_list d) []) l = 0 then None
               else Some (Count (localeCount (dflt (pages_list d) []) l))))))"
proof (intro impI)
  assume g: "graphql post QueryStatsList w = (Inr d, w')"
  let ?ps = "dflt (pages_list d) []"
  let ?st = "computeStats ?ps"
  have e: "getStats post w = (Inr ?st, w')"
    by (rule getStats_eq [OF g])
  have l: "onlyCounts (locales ?st) \<and>
           sum_list (counts (locales ?st)) = totalPages ?st \<and>
           (\<forall>l. map_of (locales ?st) l =
              (if localeCount ?ps l = 0 then None else Some (Count (localeCount ?ps l))))"
    if "\<forall>p\<in>set ?ps. stub_locale p \<notin> set objectPrototypeNames"
    using computeStats_locales [OF that] by blast
  have "getStats post w = (Inr ?st, w') \<and>
        totalPages ?st = length ?ps \<and>
        publishedPages ?st = length (filter (\<lambda>p. stub_isPublished p) ?ps) \<and>
        draftPages ?st = length (filter (\<lambda>p. \<not> stub_isPublished p) ?ps) \<and>
        publishedPages ?st + draftPages ?st = totalPages ?st \<and>
        distinct (map fst (locales ?st)) \<and>
        ((\<forall>p\<in>set ?ps. stub_locale p \<notin> set objectPrototypeNames) \<longrightarrow>
           onlyCounts (locales ?st) \<and>
           sum_list (counts (locales ?st)) = totalPages ?st \<and>
           (\<forall>l. map_of (locales ?st) l =
              (if localeCount ?ps l = 0 then None else Some (Count (localeCount ?ps l)))))"
    using e l by (simp add: computeStats_props sum_length_filter_compl)
  then show "\<exists>st. getStats post w = (Inr st, w') \<and>
        totalPages st = length ?ps \<and>
        publishedPages st = length (filter (\<lambda>p. stub_isPublished p) ?ps) \<and>
        draftPages st = length (filter (\<lambda>p. \<not> stub_isPublished p) ?ps) \<and>
        publishedPages st + draftPages st = totalPages st \<and>
        distinct (map fst (locales st)) \<and>
        ((\<forall>p\<in>set ?ps. stub_locale p \<notin> set objectPrototypeNames) \<longrightarrow>
           onlyCounts (locales st) \<and>
           sum_list (counts (locales st)) = totalPages st \<and>
           (\<forall>l. map_of (locales st) l =
              (if localeCount ?ps l = 0 then None else Some (Count (localeCount ?ps l)))))"
    by (rule exI)
qed

theorem getStats_partition_witness:
  "getStats (constRemote (ok (DataList (Some twoPages)))) () =
     (Inr \<lparr>totalPages = 3, publishedPages = 2, draftPages = 1,
           locales = [(''en'', Count 2), (''fr'', Count 1)],
           topTags = [(''x'', Count 2), (''y'', Count 1)]\<rparr>, ()) \<and>
   sum_list (counts [(''en'', Count 2), (''fr'', Count 1)]) = 3"
proof -
  have g: "graphql (constRemote (ok (DataList (Some twoPages)))) QueryStatsList ()
             = (Inr (Some (DataList (Some twoPages))), ())"
    by (simp add: graphql_def constRemote_def ok_def interceptor_def unwrap_def)
  have n: "\<forall>p\<in>set twoPages. stub_locale p \<notin> set objectPrototypeNames"
    by (simp add: twoPages_def objectPrototypeNames_def)
  have c: "computeStats twoPages =
     \<lparr>totalPages = 3, publishedPages = 2, draftPages = 1,
           locales = [(''en'', Count 2), (''fr'', Count 1)],
           topTags = [(''x'', Count 2), (''y'', Count 1)]\<rparr>"
    by (simp add: computeStats_def twoPages_def countPage_def increment_def plusOne_def
        assign_def objectPrototypeNames_def isArrayIndex_def isDigit_def dflt_def)
  have "getStats (constRemote (ok (DataList (Some twoPages)))) ()
          = (Inr (computeStats twoPages), ()) \<and>
        sum_list (counts (locales (computeStats twoPages))) = totalPages (computeStats twoPages)"
    using getStats_partition [of "constRemote (ok (DataList (Some twoPages)))" "()"
        "Some (DataList (Some twoPages))" "()"] g n
    by (auto simp: getStats_def io_bind_def io_return_def pages_list_def dflt_def)
  then show ?thesis
    by (simp add: c)
qed

section \<open>Properties of extractLinks\<close>

lemma in_run_Atom:
  "(s', k') \<in> set (run (Atom a) s k) \<longleftrightarrow> (\<exists>x. s = x # s' \<and> matchAtom a x) \<and> k' = k"
  by (cases s) auto

lemma takeWhile_prefix_len:
  "s = pre @ s' \<Longrightarrow> \<forall>c\<in>set pre. P c \<Longrightarrow> length pre \<le> length (takeWhile P s)"
  by (induction pre arbitrary: s) auto

lemma take_takeWhile_all:
  "n \<le> length (takeWhile P s) \<Longrightarrow> \<forall>c\<in>set (take n s). P c"
proof (induction s arbitrary: n)
  case Nil
  then show ?case by simp
next
  case (Cons x xs)
  then show ?case by (cases n) (auto split: if_splits)
qed

lemma set_run_Star:
  "set (run (Star a) s k) = (\<lambda>n. (drop n s, k)) ` {n. n \<le> length (takeWhile (matchAtom a) s)}"
  by (auto simp del: upt_Suc simp: less_Suc_eq_le)

lemma set_run_Plus:
  "set (run (Plus a) s k) =
     (\<lambda>n. (drop n s, k)) ` {n. 1 \<le> n \<and> n \<le> length (takeWhile (matchAtom a) s)}"
  by (auto simp del: upt_Suc simp: less_Suc_eq_le)

lemma in_run_Star:
  "(s', k') \<in> set (run (Star a) s k) \<longleftrightarrow>
     (\<exists>pre. s = pre @ s' \<and> (\<forall>c\<in>set pre. matchAtom a c)) \<and> k' = k"
proof
  assume "(s', k') \<in> set (run (Star a) s k)"
  then obtain n where n: "n \<le> length (takeWhile (matchAtom a) s)" "s' = drop n s" "k' = k"
    unfolding set_run_Star by auto
  have "s = take n s @ s'" using n(2) by simp
  with take_takeWhile_all [OF n(1)] n(3)
  show "(\<exists>pre. s = pre @ s' \<and> (\<forall>c\<in>set pre. matchAtom a c)) \<and> k' = k"
    by blast
next
  assume "(\<exists>pre. s = pre @ s' \<and> (\<forall>c\<in>set pre. matchAtom a c)) \<and> k' = k"
  then obtain pre where p: "s = pre @ s'" "\<forall>c\<in>set pre. matchAtom a c" "k' = k"
    by blast
  have "length pre \<le> length (takeWhile (matchAtom a) s)"
    by (rule takeWhile_prefix_len [OF p(1,2)])
  moreover have "s' = drop (length pre) s" using p(1) by simp
  ultimately show "(s', k') \<in> set (run (Star a) s k)"
    unfolding set_run_Star using p(3) by blast
qed

lemma in_run_Plus:
  "(s', k') \<in> set (run (Plus a) s k) \<longleftrightarrow>
     (\<exists>pre. pre \<noteq> [] \<and> s = pre @ s' \<and> (\<forall>c\<in>set pre. matchAtom a c)) \<and> k' = k"
proof
  assume "(s', k') \<in> set (run (Plus a) s k)"
  then obtain n where n: "1 \<le> n" "n \<le> length (takeWhile (matchAtom a) s)" "s' = drop n s" "k' = k"
    unfolding set_run_Plus by auto
  have "s = take n s @ s'" using n(3) by simp
  moreover have "take n s \<noteq> []"
    using n(1,2) length_takeWhile_le [of "matchAtom a" s] by (cases s) auto
  ultimately show "(\<exists>pre. pre \<noteq> [] \<and> s = pre @ s' \<and> (\<forall>c\<in>set pre. matchAtom a c)) \<and> k' = k"
    using take_takeWhile_all [OF n(2)] n(4) by blast
next
  assume "(\<exists>pre. pre \<noteq> [] \<and> s = pre @ s' \<and> (\<forall>c\<in>set pre. matchAtom a c)) \<and> k' = k"
  then obtain pre where p: "pre \<noteq> []" "s = pre @ s'" "\<forall>c\<in>set pre. matchAtom a c" "k' = k"
    by blast
  have "length pre \<le> length (takeWhile (matchAtom a) s)"
    by (rule takeWhile_prefix_len [OF p(2,3)])
  moreover have "s' = drop (length pre) s" using p(2) by simp
  moreover have "1 \<le> length pre" using p(1) by (cases pre) auto
  ultimately show "(s', k') \<in> set (run (Plus a) s k)"
    unfolding set_run_Plus using p(4) by blast
qed

lemma in_run_Opt:
  "(s', k') \<in> set (run (Opt r) s k) \<longleftrightarrow> (s', k') \<in> set (run r s k) \<or> (s' = s \<and> k' = k)"
  by auto

lemma in_run_Group:
  "(s', k') \<in> set (run (Group g r) s k) \<longleftrightarrow>
     (\<exists>k''. (s', k'') \<in> set (run r s k) \<and> k' = k''(g \<mapsto> take (length s - length s') s))"
  by (auto simp: image_iff split: prod.splits)

lemma in_run_Seq:
  "(s', k') \<in> set (run (Seq r1 r2) s k) \<longleftrightarrow>
     (\<exists>s1 k1. (s1, k1) \<in> set (run r1 s k) \<and> (s', k') \<in> set (run r2 s1 k1))"
  by auto

lemmas in_run = in_run_Atom in_run_Star in_run_Plus in_run_Opt in_run_Group in_run_Seq

lemma run_consumes:
  "(s', k') \<in> set (run r s k) \<Longrightarrow> length s' + minLen r \<le> length s"
proof (induction r arbitrary: s k s' k')
  case (Seq r1 r2)
  from Seq.prems obtain s1 k1 where
    "(s1, k1) \<in> set (run r1 s k)" "(s', k') \<in> set (run r2 s1 k1)"
    unfolding in_run_Seq by blast
  with Seq.IH [of s1 k1 s k] Seq.IH(2) [of s' k' s1 k1] show ?case by simp
next
  case (Group g r)
  then show ?case unfolding in_run_Group by auto
next
  case (Opt r)
  then show ?case unfolding in_run_Opt by fastforce
next
  case (Plus a)
  then obtain pre where "pre \<noteq> []" "s = pre @ s'"
    unfolding in_run_Plus by blast
  then show ?case by (cases pre) auto
qed (auto simp: in_run_Atom in_run_Star simp del: run.simps)


lemma in_run_Group_Star:
  "(s', k') \<in> set (run (Group g (Star a)) s k) \<longleftrightarrow>
     (\<exists>pre. s = pre @ s' \<and> (\<forall>c\<in>set pre. matchAtom a c) \<and> k' = k(g \<mapsto> pre))"
  unfolding in_run_Group in_run_Star by auto

lemma in_run_Group_Plus:
  "(s', k') \<in> set (run (Group g (Plus a)) s k) \<longleftrightarrow>
     (\<exists>pre. pre \<noteq> [] \<and> s = pre @ s' \<and> (\<forall>c\<in>set pre. matchAtom a c) \<and> k' = k(g \<mapsto> pre))"
  unfolding in_run_Group in_run_Plus by auto

lemma run_SeqI:
  "(s1, k1) \<in> set (run r1 s k) \<Longrightarrow> (s', k') \<in> set (run r2 s1 k1) \<Longrightarrow>
   (s', k') \<in> set (run (Seq r1 r2) s k)"
  unfolding in_run_Seq by blast

lemma run_LitI: "(s', k) \<in> set (run (Atom (Lit c)) (c # s') k)"
  by simp

lemma run_Group_StarI:
  "\<forall>c\<in>set pre. matchAtom a c \<Longrightarrow> (s', k(g \<mapsto> pre)) \<in> set (run (Group g (Star a)) (pre @ s') k)"
  unfolding in_run_Group_Star by blast

lemma run_Group_PlusI:
  "pre \<noteq> [] \<Longrightarrow> \<forall>c\<in>set pre. matchAtom a c \<Longrightarrow>
   (s', k(g \<mapsto> pre)) \<in> set (run (Group g (Plus a)) (pre @ s') k)"
  unfolding in_run_Group_Plus by blast

lemma run_Opt_skipI: "(s, k) \<in> set (run (Opt r) s k)"
  by simp

lemma run_Opt_takeI: "(s', k') \<in> set (run r s k) \<Longrightarrow> (s', k') \<in> set (run (Opt r) s k)"
  by simp

declare run.simps [simp del]

lemma md_sound:
  "(s', k') \<in> set (run mdLinkRegex s k) \<Longrightarrow>
     \<exists>t u. s = CHR ''['' # t @ CHR '']'' # CHR ''('' # u @ CHR '')'' # s' \<and>
        CHR '']'' \<notin> set t \<and> u \<noteq> [] \<and> CHR '')'' \<notin> set u \<and> k' = k(1 \<mapsto> t, 2 \<mapsto> u)"
  unfolding mdLinkRegex_def in_run_Seq in_run_Atom in_run_Group_Star in_run_Group_Plus
  by (auto simp del: run.simps)

lemma md_complete:
  assumes "CHR '']'' \<notin> set t" "u \<noteq> []" "CHR '')'' \<notin> set u"
  shows "(s', k(1 \<mapsto> t, 2 \<mapsto> u))
           \<in> set (run mdLinkRegex (CHR ''['' # t @ CHR '']'' # CHR ''('' # u @ CHR '')'' # s') k)"
proof -
  have t: "\<forall>c\<in>set t. matchAtom (NoneOf '']'') c" using assms(1) by auto
  have u: "\<forall>c\<in>set u. matchAtom (NoneOf '')'') c" using assms(3) by auto
  show ?thesis
    unfolding mdLinkRegex_def
    by (rule run_SeqI, rule run_LitI, rule run_SeqI, rule run_Group_StarI [OF t],
        rule run_SeqI, rule run_LitI, rule run_SeqI, rule run_LitI,
        rule run_SeqI, rule run_Group_PlusI [OF assms(2) u], rule run_LitI)
qed

lemma wiki_sound:
  assumes "(s', k') \<in> set (run wikiLinkRegex s k)"
  shows "\<exists>t. t \<noteq> [] \<and> (\<forall>c\<in>set t. c \<noteq> CHR '']'' \<and> c \<noteq> CHR ''|'') \<and>
        ((s = CHR ''['' # CHR ''['' # t @ CHR '']'' # CHR '']'' # s' \<and> k' = k(1 \<mapsto> t)) \<or>
         (\<exists>x. x \<noteq> [] \<and> CHR '']'' \<notin> set x \<and>
            s = CHR ''['' # CHR ''['' # t @ CHR ''|'' # x @ CHR '']'' # CHR '']'' # s' \<and>
            k' = k(1 \<mapsto> t, 2 \<mapsto> x)))"
proof -
  let ?opt = "Opt (Seq (Atom (Lit (CHR ''|''))) (Group 2 (Plus (NoneOf '']''))))"
  from assms obtain s1 s2 s3 k3 s4 k4 s5 k5 where
    1: "s = CHR ''['' # s1" and 2: "s1 = CHR ''['' # s2" and
    3: "(s3, k3) \<in> set (run (Group 1 (Plus (NoneOf '']|''))) s2 k)" and
    4: "(s4, k4) \<in> set (run ?opt s3 k3)" and
    5: "(s5, k5) \<in> set (run (Atom (Lit (CHR '']''))) s4 k4)" and
    6: "(s', k') \<in> set (run (Atom (Lit (CHR '']''))) s5 k5)"
    unfolding wikiLinkRegex_def in_run_Seq in_run_Atom by (auto simp del: run.simps)
  from 3 obtain t where t: "t \<noteq> []" "s2 = t @ s3" "\<forall>c\<in>set t. c \<noteq> CHR '']'' \<and> c \<noteq> CHR ''|''"
    "k3 = k(1 \<mapsto> t)"
    unfolding in_run_Group_Plus by (auto simp del: run.simps)
  from 5 have 5: "s4 = CHR '']'' # s5" "k5 = k4" unfolding in_run_Atom by (auto simp del: run.simps)
  from 6 have 6: "s5 = CHR '']'' # s'" "k' = k5" unfolding in_run_Atom by (auto simp del: run.simps)
  from 4 consider (skip) "s4 = s3" "k4 = k3"
    | (take) x where "x \<noteq> []" "CHR '']'' \<notin> set x" "s3 = CHR ''|'' # x @ s4" "k4 = k3(2 \<mapsto> x)"
    unfolding in_run_Opt in_run_Seq in_run_Atom in_run_Group_Plus by (auto simp del: run.simps)
  then show ?thesis
  proof cases
    case skip
    with 1 2 t 5 6 show ?thesis by auto
  next
    case take
    with 1 2 t 5 6 show ?thesis by auto
  qed
qed

lemma wiki_complete_plain:
  assumes "t \<noteq> []" "\<forall>c\<in>set t. c \<noteq> CHR '']'' \<and> c \<noteq> CHR ''|''"
  shows "(s', k(1 \<mapsto> t))
           \<in> set (run wikiLinkRegex (CHR ''['' # CHR ''['' # t @ CHR '']'' # CHR '']'' # s') k)"
proof -
  have t: "\<forall>c\<in>set t. matchAtom (NoneOf '']|'') c" using assms(2) by auto
  show ?thesis
    unfolding wikiLinkRegex_def
    by (rule run_SeqI, rule run_LitI, rule run_SeqI, rule run_LitI,
        rule run_SeqI, rule run_Group_PlusI [OF assms(1) t],
        rule run_SeqI, rule run_Opt_skipI, rule run_SeqI, rule run_LitI, rule run_LitI)
qed

lemma wiki_complete_text:
  assumes "t \<noteq> []" "\<forall>c\<in>set t. c \<noteq> CHR '']'' \<and> c \<noteq> CHR ''|''" "x \<noteq> []" "CHR '']'' \<notin> set x"
  shows "(s', k(1 \<mapsto> t, 2 \<mapsto> x))
           \<in> set (run wikiLinkRegex
                (CHR ''['' # CHR ''['' # t @ CHR ''|'' # x @ CHR '']'' # CHR '']'' # s') k)"
proof -
  have t: "\<forall>c\<in>set t. matchAtom (NoneOf '']|'') c" using assms(2) by auto
  have x: "\<forall>c\<in>set x. matchAtom (NoneOf '']'') c" using assms(4) by auto
  show ?thesis
    unfolding wikiLinkRegex_def
    by (rule run_SeqI, rule run_LitI, rule run_SeqI, rule run_LitI,
        rule run_SeqI, rule run_Group_PlusI [OF assms(1) t],
        rule run_SeqI, rule run_Opt_takeI, rule run_SeqI, rule run_LitI,
        rule run_Group_PlusI [OF assms(3) x], rule run_SeqI, rule run_LitI, rule run_LitI)
qed


lemma split_unique:
  "\<forall>c\<in>set a. P c \<Longrightarrow> \<forall>c\<in>set a'. P c \<Longrightarrow> \<not> P c1 \<Longrightarrow> \<not> P c2 \<Longrightarrow>
   a @ c1 # x = a' @ c2 # x' \<Longrightarrow> a = a' \<and> c1 = c2 \<and> x = x'"
proof (induction a arbitrary: a')
  case Nil
  then show ?case by (cases a') auto
next
  case (Cons y ys)
  then show ?case by (cases a') auto
qed

lemma md_unique:
  assumes "CHR '']'' \<notin> set t" "u \<noteq> []" "CHR '')'' \<notin> set u"
  shows "set (run mdLinkRegex (CHR ''['' # t @ CHR '']'' # CHR ''('' # u @ CHR '')'' # s') k)
           = {(s', k(1 \<mapsto> t, 2 \<mapsto> u))}"
proof -
  let ?s = "CHR ''['' # t @ CHR '']'' # CHR ''('' # u @ CHR '')'' # s'"
  have "m = (s', k(1 \<mapsto> t, 2 \<mapsto> u))" if "m \<in> set (run mdLinkRegex ?s k)" for m
  proof -
    obtain s2 k2 where m: "m = (s2, k2)" by (cases m)
    from md_sound [OF that [unfolded m]] obtain t' u' where
      s: "?s = CHR ''['' # t' @ CHR '']'' # CHR ''('' # u' @ CHR '')'' # s2" and
      c: "CHR '']'' \<notin> set t'" "CHR '')'' \<notin> set u'" and k2: "k2 = k(1 \<mapsto> t', 2 \<mapsto> u')"
      by blast
    from s have e: "t @ CHR '']'' # (CHR ''('' # u @ CHR '')'' # s')
                  = t' @ CHR '']'' # (CHR ''('' # u' @ CHR '')'' # s2)" by simp
    have 1: "t = t' \<and> CHR ''('' # u @ CHR '')'' # s' = CHR ''('' # u' @ CHR '')'' # s2"
      using split_unique [where P = "\<lambda>c. c \<noteq> CHR '']''", OF _ _ _ _ e] assms(1) c(1) by auto
    then have e2: "u @ CHR '')'' # s' = u' @ CHR '')'' # s2" by simp
    have 2: "u = u' \<and> s' = s2"
      using split_unique [where P = "\<lambda>c. c \<noteq> CHR '')''", OF _ _ _ _ e2] assms(3) c(2) by auto
    with 1 k2 m show ?thesis by simp
  qed
  with md_complete [OF assms, of s' k] show ?thesis by blast
qed

lemma wiki_unique_plain:
  assumes "t \<noteq> []" "\<forall>c\<in>set t. c \<noteq> CHR '']'' \<and> c \<noteq> CHR ''|''"
  shows "set (run wikiLinkRegex (CHR ''['' # CHR ''['' # t @ CHR '']'' # CHR '']'' # s') k)
           = {(s', k(1 \<mapsto> t))}"
proof -
  let ?s = "CHR ''['' # CHR ''['' # t @ CHR '']'' # CHR '']'' # s'"
  let ?P = "\<lambda>c. c \<noteq> CHR '']'' \<and> c \<noteq> CHR ''|''"
  have "m = (s', k(1 \<mapsto> t))" if "m \<in> set (run wikiLinkRegex ?s k)" for m
  proof -
    obtain s2 k2 where m: "m = (s2, k2)" by (cases m)
    from wiki_sound [OF that [unfolded m]] obtain t' where
      t': "\<forall>c\<in>set t'. ?P c" and
      alt: "(?s = CHR ''['' # CHR ''['' # t' @ CHR '']'' # CHR '']'' # s2 \<and> k2 = k(1 \<mapsto> t')) \<or>
         (\<exists>x. x \<noteq> [] \<and> CHR '']'' \<notin> set x \<and>
            ?s = CHR ''['' # CHR ''['' # t' @ CHR ''|'' # x @ CHR '']'' # CHR '']'' # s2 \<and>
            k2 = k(1 \<mapsto> t', 2 \<mapsto> x))"
      by blast
    from alt show ?thesis
    proof
      assume a: "?s = CHR ''['' # CHR ''['' # t' @ CHR '']'' # CHR '']'' # s2 \<and> k2 = k(1 \<mapsto> t')"
      then have e: "t @ CHR '']'' # (CHR '']'' # s') = t' @ CHR '']'' # (CHR '']'' # s2)" by simp
      have "t = t' \<and> CHR '']'' # s' = CHR '']'' # s2"
        using split_unique [where P = ?P, OF assms(2) t' _ _ e] by auto
      with a m show ?thesis by simp
    next
      assume "\<exists>x. x \<noteq> [] \<and> CHR '']'' \<notin> set x \<and>
            ?s = CHR ''['' # CHR ''['' # t' @ CHR ''|'' # x @ CHR '']'' # CHR '']'' # s2 \<and>
            k2 = k(1 \<mapsto> t', 2 \<mapsto> x)"
      then obtain x where
        e: "t @ CHR '']'' # (CHR '']'' # s') = t' @ CHR ''|'' # (x @ CHR '']'' # CHR '']'' # s2)"
        by auto
      have "CHR '']'' = CHR ''|''"
        using split_unique [where P = ?P, OF assms(2) t' _ _ e] by auto
      then show ?thesis by simp
    qed
  qed
  with wiki_complete_plain [OF assms, of s' k] show ?thesis by blast
qed

lemma wiki_unique_text:
  assumes "t \<noteq> []" "\<forall>c\<in>set t. c \<noteq> CHR '']'' \<and> c \<noteq> CHR ''|''" "x \<noteq> []" "CHR '']'' \<notin> set x"
  shows "set (run wikiLinkRegex
            (CHR ''['' # CHR ''['' # t @ CHR ''|'' # x @ CHR '']'' # CHR '']'' # s') k)
           = {(s', k(1 \<mapsto> t, 2 \<mapsto> x))}"
proof -
  let ?s = "CHR ''['' # CHR ''['' # t @ CHR ''|'' # x @ CHR '']'' # CHR '']'' # s'"
  let ?P = "\<lambda>c. c \<noteq> CHR '']'' \<and> c \<noteq> CHR ''|''"
  have "m = (s', k(1 \<mapsto> t, 2 \<mapsto> x))" if "m \<in> set (run wikiLinkRegex ?s k)" for m
  proof -
    obtain s2 k2 where m: "m = (s2, k2)" by (cases m)
    from wiki_sound [OF that [unfolded m]] obtain t' where
      t': "\<forall>c\<in>set t'. ?P c" and
      alt: "(?s = CHR ''['' # CHR ''['' # t' @ CHR '']'' # CHR '']'' # s2 \<and> k2 = k(1 \<mapsto> t')) \<or>
         (\<exists>x'. x' \<noteq> [] \<and> CHR '']'' \<notin> set x' \<and>
            ?s = CHR ''['' # CHR ''['' # t' @ CHR ''|'' # x' @ CHR '']'' # CHR '']'' # s2 \<and>
            k2 = k(1 \<mapsto> t', 2 \<mapsto> x'))"
      by blast
    from alt show ?thesis
    proof
      assume "?s = CHR ''['' # CHR ''['' # t' @ CHR '']'' # CHR '']'' # s2 \<and> k2 = k(1 \<mapsto> t')"
      then have e: "t @ CHR ''|'' # (x @ CHR '']'' # CHR '']'' # s') = t' @ CHR '']'' # (CHR '']'' # s2)"
        by simp
      have "CHR ''|'' = CHR '']''"
        using split_unique [where P = ?P, OF assms(2) t' _ _ e] by auto
      then show ?thesis by simp
    next
      assume "\<exists>x'. x' \<noteq> [] \<and> CHR '']'' \<notin> set x' \<and>
            ?s = CHR ''['' # CHR ''['' # t' @ CHR ''|'' # x' @ CHR '']'' # CHR '']'' # s2 \<and>
            k2 = k(1 \<mapsto> t', 2 \<mapsto> x')"
      then obtain x' where x': "CHR '']'' \<notin> set x'" "k2 = k(1 \<mapsto> t', 2 \<mapsto> x')" and
        e: "t @ CHR ''|'' # (x @ CHR '']'' # CHR '']'' # s')
              = t' @ CHR ''|'' # (x' @ CHR '']'' # CHR '']'' # s2)"
        by auto
      have 1: "t = t' \<and> x @ CHR '']'' # CHR '']'' # s' = x' @ CHR '']'' # CHR '']'' # s2"
        using split_unique [where P = ?P, OF assms(2) t' _ _ e] by auto
      then have e2: "x @ CHR '']'' # (CHR '']'' # s') = x' @ CHR '']'' # (CHR '']'' # s2)" by simp
      have "x = x' \<and> CHR '']'' # s' = CHR '']'' # s2"
        using split_unique [where P = "\<lambda>c. c \<noteq> CHR '']''", OF _ _ _ _ e2] assms(4) x'(1) by auto
      with 1 x'(2) m show ?thesis by simp
    qed
  qed
  with wiki_complete_text [OF assms, of s' k] show ?thesis by blast
qed

lemma matchHere_unique: "set (run r s Map.empty) = {m} \<Longrightarrow> matchHere r s = Some m"
  by (cases "run r s Map.empty") (auto simp: matchHere_def)

lemma matchHere_None: "matchHere r s = None \<longleftrightarrow> set (run r s Map.empty) = {}"
  by (cases "run r s Map.empty") (auto simp: matchHere_def)

lemma matchHere_Some_in: "matchHere r s = Some m \<Longrightarrow> m \<in> set (run r s Map.empty)"
  by (cases "run r s Map.empty") (auto simp: matchHere_def)

lemma execFrom_here: "matchHere r s = Some m \<Longrightarrow> execFrom r s = Some m"
  by (cases s) auto

lemma execFrom_Some_suffix:
  "execFrom r s = Some (rest, k) \<Longrightarrow>
   \<exists>pre s'. s = pre @ s' \<and> (rest, k) \<in> set (run r s' Map.empty)"
proof (induction s)
  case Nil
  then show ?case using matchHere_Some_in [of r "[]"] by auto
next
  case (Cons x xs)
  show ?case
  proof (cases "matchHere r (x # xs)")
    case None
    with Cons obtain pre s' where "xs = pre @ s'" "(rest, k) \<in> set (run r s' Map.empty)"
      by auto
    then have "x # xs = (x # pre) @ s'" by simp
    with \<open>(rest, k) \<in> set (run r s' Map.empty)\<close> show ?thesis by blast
  next
    case (Some m)
    with Cons.prems have "(rest, k) \<in> set (run r (x # xs) Map.empty)"
      using matchHere_Some_in [of r "x # xs" m] by simp
    then show ?thesis by (intro exI [of _ "[]"] exI [of _ "x # xs"]) simp
  qed
qed

lemma execFrom_shorter:
  "execFrom r s = Some (rest, k) \<Longrightarrow> length rest + minLen r \<le> length s"
proof -
  assume "execFrom r s = Some (rest, k)"
  then obtain pre s' where "s = pre @ s'" "(rest, k) \<in> set (run r s' Map.empty)"
    using execFrom_Some_suffix by blast
  with run_consumes [of rest k r s' Map.empty] show ?thesis by simp
qed

lemma matchAll_done: "execFrom r s = None \<Longrightarrow> matchAll r s = Some []"
  by (subst matchAll.simps) simp

lemma matchAll_step:
  "execFrom r s = Some (rest, k) \<Longrightarrow> length rest < length s \<Longrightarrow>
   matchAll r s = map_option ((#) k) (matchAll r rest)"
  by (subst matchAll.simps) simp

lemma matchAll_total: "0 < minLen r \<Longrightarrow> \<exists>ks. matchAll r s = Some ks"
proof (induction s rule: length_induct)
  case (1 s)
  show ?case
  proof (cases "execFrom r s")
    case None
    then show ?thesis by (simp add: matchAll_done)
  next
    case (Some m)
    obtain rest k where m: "m = (rest, k)" by (cases m)
    from execFrom_shorter [OF Some [unfolded m]] 1(2) have l: "length rest < length s" by simp
    with 1 obtain ks where "matchAll r rest = Some ks" by blast
    with matchAll_step [OF Some [unfolded m] l] show ?thesis by simp
  qed
qed


lemma minLen_regexes: "0 < minLen mdLinkRegex" "0 < minLen wikiLinkRegex"
  by (simp_all add: mdLinkRegex_def wikiLinkRegex_def)

lemma matchAll_skip:
  assumes "0 < minLen r" and "matchHere r (c # cs) = None"
  shows "matchAll r (c # cs) = matchAll r cs"
proof -
  have e: "execFrom r (c # cs) = execFrom r cs"
    using assms(2) by simp
  show ?thesis
  proof (cases "execFrom r cs")
    case None
    then have "execFrom r (c # cs) = None"
      by (simp only: e)
    then have "matchAll r (c # cs) = Some []"
      by (rule matchAll_done)
    moreover have "matchAll r cs = Some []"
      by (rule matchAll_done [OF None])
    ultimately show ?thesis
      by simp
  next
    case (Some m)
    obtain rest k where m: "m = (rest, k)" by (cases m)
    from execFrom_shorter [OF Some [unfolded m]] assms(1) have l: "length rest < length cs"
      by simp
    then have l': "length rest < length (c # cs)"
      by simp
    have "matchAll r (c # cs) = map_option ((#) k) (matchAll r rest)"
      by (rule matchAll_step [OF _ l']) (simp only: e Some m)
    moreover have "matchAll r cs = map_option ((#) k) (matchAll r rest)"
      by (rule matchAll_step [OF _ l]) (simp only: Some m)
    ultimately show ?thesis
      by simp
  qed
qed

text \<open>
  The loop over \<open>exec\<close> collects what the pass of the description collects, whenever a
  match at the start of a text is a link at the start of that text.
\<close>

lemma matchAll_scan:
  assumes "0 < minLen r"
    and none: "\<And>s. linkAt s = None \<Longrightarrow> matchHere r s = None"
    and some: "\<And>s l rest. linkAt s = Some (l, rest) \<Longrightarrow>
                 \<exists>k. matchHere r s = Some (rest, k) \<and> mk k = mk' l"
  shows "map_option (map mk) (matchAll r s) = Some (map mk' (spec_scan linkAt s))"
proof (induction s rule: length_induct)
  case (1 s)
  show ?case
  proof (cases "linkAt s")
    case None
    then have h: "matchHere r s = None"
      by (rule none)
    show ?thesis
    proof (cases s)
      case Nil
      have "matchAll r [] = Some []"
        by (rule matchAll_done) (use h Nil in simp)
      moreover have "spec_scan linkAt [] = []"
        using None Nil by (subst spec_scan.simps) simp
      ultimately show ?thesis
        by (simp add: Nil)
    next
      case (Cons c cs)
      have "matchAll r (c # cs) = matchAll r cs"
        by (rule matchAll_skip [OF assms(1)]) (use h Cons in simp)
      moreover have "spec_scan linkAt (c # cs) = spec_scan linkAt cs"
        using None Cons by (subst spec_scan.simps) simp
      moreover have "map_option (map mk) (matchAll r cs) = Some (map mk' (spec_scan linkAt cs))"
        using 1 Cons by simp
      ultimately show ?thesis
        by (simp add: Cons)
    qed
  next
    case (Some m)
    obtain l rest where m: "m = (l, rest)" by (cases m)
    from some [OF Some [unfolded m]] obtain k where
      k: "matchHere r s = Some (rest, k)" "mk k = mk' l"
      by blast
    have e: "execFrom r s = Some (rest, k)"
      by (rule execFrom_here [OF k(1)])
    from execFrom_shorter [OF e] assms(1) have len: "length rest < length s"
      by simp
    have a: "matchAll r s = map_option ((#) k) (matchAll r rest)"
      by (rule matchAll_step [OF e len])
    have b: "spec_scan linkAt s = l # spec_scan linkAt rest"
      using Some m len by (subst spec_scan.simps) simp
    have c: "map_option (map mk) (matchAll r rest) = Some (map mk' (spec_scan linkAt rest))"
      using 1 len by simp
    then obtain ks where ks: "matchAll r rest = Some ks" "map mk ks = map mk' (spec_scan linkAt rest)"
      by (cases "matchAll r rest") auto
    show ?thesis
      by (simp add: a b ks k(2))
  qed
qed

text \<open>The cut of a text at its first stop character.\<close>

lemma spec_upTo_append:
  "\<forall>c\<in>set t. c \<notin> set stops \<Longrightarrow> d \<in> set stops \<Longrightarrow>
   spec_upTo stops (t @ d # rest) = Some (t, d, rest)"
  by (simp add: spec_upTo_def dropWhile_append2 takeWhile_append2)

lemma spec_upTo_SomeD:
  assumes "spec_upTo stops s = Some (t, d, rest)"
  shows "s = t @ d # rest" and "d \<in> set stops" and "\<forall>c\<in>set t. c \<notin> set stops"
proof -
  let ?P = "\<lambda>c. c \<notin> set stops"
  from assms have d: "dropWhile ?P s = d # rest" and t: "t = takeWhile ?P s"
    by (auto simp: spec_upTo_def split: list.splits)
  have "s = takeWhile ?P s @ dropWhile ?P s"
    by simp
  then show "s = t @ d # rest"
    by (simp only: d t [symmetric])
  from hd_dropWhile [of ?P s] d show "d \<in> set stops"
    by auto
  show "\<forall>c\<in>set t. c \<notin> set stops"
    unfolding t using set_takeWhileD by fastforce
qed

text \<open>The markdown form, and the matches of the markdown pattern.\<close>

lemma spec_mdLinkAt_form:
  assumes "CHR '']'' \<notin> set t" "u \<noteq> []" "CHR '')'' \<notin> set u"
  shows "spec_mdLinkAt (CHR ''['' # t @ CHR '']'' # CHR ''('' # u @ CHR '')'' # rest)
           = Some ((t, u), rest)"
proof -
  have 1: "spec_upTo '']'' (t @ CHR '']'' # CHR ''('' # u @ CHR '')'' # rest)
             = Some (t, CHR '']'', CHR ''('' # u @ CHR '')'' # rest)"
    by (rule spec_upTo_append) (use assms(1) in auto)
  have 2: "spec_upTo '')'' (u @ CHR '')'' # rest) = Some (u, CHR '')'', rest)"
    by (rule spec_upTo_append) (use assms(3) in auto)
  show ?thesis
    by (simp add: spec_mdLinkAt_def 1 2 assms(2))
qed

lemma spec_mdLinkAt_SomeD:
  assumes "spec_mdLinkAt s = Some ((t, u), rest)"
  shows "s = CHR ''['' # t @ CHR '']'' # CHR ''('' # u @ CHR '')'' # rest"
    and "CHR '']'' \<notin> set t" and "u \<noteq> []" and "CHR '')'' \<notin> set u"
proof -
  from assms obtain s1 d s3 e where
    s: "s = CHR ''['' # s1" and
    1: "spec_upTo '']'' s1 = Some (t, d, CHR ''('' # s3)" and
    2: "spec_upTo '')'' s3 = Some (u, e, rest)" and u: "u \<noteq> []"
    by (auto simp: spec_mdLinkAt_def split: list.splits if_splits option.splits)
  from spec_upTo_SomeD [OF 1] have t: "s1 = t @ d # CHR ''('' # s3" "d = CHR '']''"
    "CHR '']'' \<notin> set t"
    by auto
  from spec_upTo_SomeD [OF 2] have 3: "s3 = u @ e # rest" "e = CHR '')''" "CHR '')'' \<notin> set u"
    by auto
  show "s = CHR ''['' # t @ CHR '']'' # CHR ''('' # u @ CHR '')'' # rest"
    by (simp add: s t 3)
  show "CHR '']'' \<notin> set t" "u \<noteq> []" "CHR '')'' \<notin> set u"
    by (fact t(3) u 3(3))+
qed

lemma md_matchHere_Some:
  assumes "spec_mdLinkAt s = Some ((t, u), rest)"
  shows "matchHere mdLinkRegex s = Some (rest, [1 \<mapsto> t, 2 \<mapsto> u])"
  unfolding spec_mdLinkAt_SomeD(1) [OF assms]
  by (rule matchHere_unique [OF md_unique [OF spec_mdLinkAt_SomeD(2-4) [OF assms]]])

lemma md_matchHere_None:
  assumes "spec_mdLinkAt s = None"
  shows "matchHere mdLinkRegex s = None"
proof -
  have nm: "m \<notin> set (run mdLinkRegex s Map.empty)" for m
  proof
    assume a: "m \<in> set (run mdLinkRegex s Map.empty)"
    obtain s' k' where m: "m = (s', k')" by (cases m)
    from md_sound [OF a [unfolded m]] obtain t u where
      "s = CHR ''['' # t @ CHR '']'' # CHR ''('' # u @ CHR '')'' # s'"
      "CHR '']'' \<notin> set t" "u \<noteq> []" "CHR '')'' \<notin> set u"
      by blast
    with spec_mdLinkAt_form [of t u s'] assms show False
      by simp
  qed
  have "set (run mdLinkRegex s Map.empty) = {}"
  proof (rule equals0I)
    fix m
    assume "m \<in> set (run mdLinkRegex s Map.empty)"
    with nm [of m] show False by simp
  qed
  then show ?thesis
    by (simp only: matchHere_None)
qed

lemma md_pass:
  "map_option (map mdLink) (matchAll mdLinkRegex s)
     = Some (map spec_mdLink (spec_scan spec_mdLinkAt s))"
proof (rule matchAll_scan [OF minLen_regexes(1)])
  fix s
  assume "spec_mdLinkAt s = None"
  then show "matchHere mdLinkRegex s = None"
    by (rule md_matchHere_None)
next
  fix s l rest
  assume a: "spec_mdLinkAt s = Some (l, rest)"
  obtain t u where l: "l = (t, u)" by (cases l)
  have "matchHere mdLinkRegex s = Some (rest, [1 \<mapsto> t, 2 \<mapsto> u])"
    by (rule md_matchHere_Some [OF a [unfolded l]])
  moreover have "mdLink [1 \<mapsto> t, 2 \<mapsto> u] = spec_mdLink l"
    by (simp add: mdLink_def spec_mdLink_def l)
  ultimately show "\<exists>k. matchHere mdLinkRegex s = Some (rest, k) \<and> mdLink k = spec_mdLink l"
    by blast
qed

text \<open>The wiki form, and the matches of the wiki pattern.\<close>

lemma spec_wikiLinkAt_plain:
  assumes "t \<noteq> []" "\<forall>c\<in>set t. c \<noteq> CHR '']'' \<and> c \<noteq> CHR ''|''"
  shows "spec_wikiLinkAt (CHR ''['' # CHR ''['' # t @ CHR '']'' # CHR '']'' # rest)
           = Some ((t, None), rest)"
proof -
  have 1: "spec_upTo '']|'' (t @ CHR '']'' # CHR '']'' # rest)
             = Some (t, CHR '']'', CHR '']'' # rest)"
    by (rule spec_upTo_append) (use assms(2) in auto)
  show ?thesis
    by (simp add: spec_wikiLinkAt_def 1 assms(1))
qed

lemma spec_wikiLinkAt_text:
  assumes "t \<noteq> []" "\<forall>c\<in>set t. c \<noteq> CHR '']'' \<and> c \<noteq> CHR ''|''" "x \<noteq> []" "CHR '']'' \<notin> set x"
  shows "spec_wikiLinkAt (CHR ''['' # CHR ''['' # t @ CHR ''|'' # x @ CHR '']'' # CHR '']'' # rest)
           = Some ((t, Some x), rest)"
proof -
  have 1: "spec_upTo '']|'' (t @ CHR ''|'' # x @ CHR '']'' # CHR '']'' # rest)
             = Some (t, CHR ''|'', x @ CHR '']'' # CHR '']'' # rest)"
    by (rule spec_upTo_append) (use assms(2) in auto)
  have 2: "spec_upTo '']'' (x @ CHR '']'' # CHR '']'' # rest) = Some (x, CHR '']'', CHR '']'' # rest)"
    by (rule spec_upTo_append) (use assms(4) in auto)
  show ?thesis
    by (simp add: spec_wikiLinkAt_def 1 2 assms(1,3))
qed

lemma spec_wikiLinkAt_SomeD:
  assumes "spec_wikiLinkAt s = Some ((t, x), rest)"
  shows "t \<noteq> [] \<and> (\<forall>c\<in>set t. c \<noteq> CHR '']'' \<and> c \<noteq> CHR ''|'') \<and>
         ((x = None \<and> s = CHR ''['' # CHR ''['' # t @ CHR '']'' # CHR '']'' # rest) \<or>
          (\<exists>y. x = Some y \<and> y \<noteq> [] \<and> CHR '']'' \<notin> set y \<and>
             s = CHR ''['' # CHR ''['' # t @ CHR ''|'' # y @ CHR '']'' # CHR '']'' # rest))"
proof -
  from assms obtain s1 d s2 where
    s: "s = CHR ''['' # CHR ''['' # s1" and
    1: "spec_upTo '']|'' s1 = Some (t, d, s2)" and t: "t \<noteq> []"
    by (auto simp: spec_wikiLinkAt_def split: list.splits if_splits option.splits)
  from spec_upTo_SomeD [OF 1] have s1: "s1 = t @ d # s2" and d: "d = CHR '']'' \<or> d = CHR ''|''"
    and tc: "\<forall>c\<in>set t. c \<noteq> CHR '']'' \<and> c \<noteq> CHR ''|''"
    by auto
  show ?thesis
  proof (cases "d = CHR '']''")
    case True
    with assms s 1 t have "s2 = CHR '']'' # rest" "x = None"
      by (auto simp: spec_wikiLinkAt_def split: list.splits if_splits)
    with True s s1 t tc show ?thesis
      by simp
  next
    case False
    with d have dp: "d = CHR ''|''" by simp
    from assms s 1 t False obtain y e where
      2: "spec_upTo '']'' s2 = Some (y, e, CHR '']'' # rest)" and y: "y \<noteq> []" "x = Some y"
      by (auto simp: spec_wikiLinkAt_def split: list.splits if_splits option.splits)
    from spec_upTo_SomeD [OF 2] have "s2 = y @ e # CHR '']'' # rest" "e = CHR '']''"
      "CHR '']'' \<notin> set y"
      by auto
    with dp s s1 t tc y show ?thesis
      by simp
  qed
qed

lemma wiki_matchHere_None:
  assumes "spec_wikiLinkAt s = None"
  shows "matchHere wikiLinkRegex s = None"
proof -
  have nm: "m \<notin> set (run wikiLinkRegex s Map.empty)" for m
  proof
    assume a: "m \<in> set (run wikiLinkRegex s Map.empty)"
    obtain s' k' where m: "m = (s', k')" by (cases m)
    from wiki_sound [OF a [unfolded m]] obtain t where
      t: "t \<noteq> []" "\<forall>c\<in>set t. c \<noteq> CHR '']'' \<and> c \<noteq> CHR ''|''" and
      alt: "s = CHR ''['' # CHR ''['' # t @ CHR '']'' # CHR '']'' # s' \<or>
         (\<exists>x. x \<noteq> [] \<and> CHR '']'' \<notin> set x \<and>
            s = CHR ''['' # CHR ''['' # t @ CHR ''|'' # x @ CHR '']'' # CHR '']'' # s')"
      by blast
    from alt show False
    proof
      assume "s = CHR ''['' # CHR ''['' # t @ CHR '']'' # CHR '']'' # s'"
      with spec_wikiLinkAt_plain [OF t, of s'] assms show False
        by simp
    next
      assume "\<exists>x. x \<noteq> [] \<and> CHR '']'' \<notin> set x \<and>
            s = CHR ''['' # CHR ''['' # t @ CHR ''|'' # x @ CHR '']'' # CHR '']'' # s'"
      then obtain x where "x \<noteq> []" "CHR '']'' \<notin> set x"
        "s = CHR ''['' # CHR ''['' # t @ CHR ''|'' # x @ CHR '']'' # CHR '']'' # s'"
        by blast
      with spec_wikiLinkAt_text [OF t, of x s'] assms show False
        by simp
    qed
  qed
  have "set (run wikiLinkRegex s Map.empty) = {}"
  proof (rule equals0I)
    fix m
    assume "m \<in> set (run wikiLinkRegex s Map.empty)"
    with nm [of m] show False by simp
  qed
  then show ?thesis
    by (simp only: matchHere_None)
qed

lemma wiki_pass:
  "map_option (map wikiLink) (matchAll wikiLinkRegex s)
     = Some (map spec_wikiLink (spec_scan spec_wikiLinkAt s))"
proof (rule matchAll_scan [OF minLen_regexes(2)])
  fix s
  assume "spec_wikiLinkAt s = None"
  then show "matchHere wikiLinkRegex s = None"
    by (rule wiki_matchHere_None)
next
  fix s l rest
  assume a: "spec_wikiLinkAt s = Some (l, rest)"
  obtain t x where l: "l = (t, x)" by (cases l)
  from spec_wikiLinkAt_SomeD [OF a [unfolded l]] have
    t: "t \<noteq> []" "\<forall>c\<in>set t. c \<noteq> CHR '']'' \<and> c \<noteq> CHR ''|''" and
    alt: "(x = None \<and> s = CHR ''['' # CHR ''['' # t @ CHR '']'' # CHR '']'' # rest) \<or>
          (\<exists>y. x = Some y \<and> y \<noteq> [] \<and> CHR '']'' \<notin> set y \<and>
             s = CHR ''['' # CHR ''['' # t @ CHR ''|'' # y @ CHR '']'' # CHR '']'' # rest)"
    by blast+
  from alt show "\<exists>k. matchHere wikiLinkRegex s = Some (rest, k) \<and> wikiLink k = spec_wikiLink l"
  proof
    assume p: "x = None \<and> s = CHR ''['' # CHR ''['' # t @ CHR '']'' # CHR '']'' # rest"
    have "matchHere wikiLinkRegex (CHR ''['' # CHR ''['' # t @ CHR '']'' # CHR '']'' # rest)
            = Some (rest, [1 \<mapsto> t])"
      by (rule matchHere_unique [OF wiki_unique_plain [OF t]])
    moreover have "wikiLink [1 \<mapsto> t] = spec_wikiLink l"
      using p by (simp add: wikiLink_def spec_wikiLink_def l)
    ultimately show ?thesis
      using p by blast
  next
    assume "\<exists>y. x = Some y \<and> y \<noteq> [] \<and> CHR '']'' \<notin> set y \<and>
             s = CHR ''['' # CHR ''['' # t @ CHR ''|'' # y @ CHR '']'' # CHR '']'' # rest"
    then obtain y where y: "x = Some y" "y \<noteq> []" "CHR '']'' \<notin> set y"
      "s = CHR ''['' # CHR ''['' # t @ CHR ''|'' # y @ CHR '']'' # CHR '']'' # rest"
      by blast
    have "matchHere wikiLinkRegex
            (CHR ''['' # CHR ''['' # t @ CHR ''|'' # y @ CHR '']'' # CHR '']'' # rest)
            = Some (rest, [1 \<mapsto> t, 2 \<mapsto> y])"
      by (rule matchHere_unique [OF wiki_unique_text [OF t y(2,3)]])
    moreover have "wikiLink [1 \<mapsto> t, 2 \<mapsto> y] = spec_wikiLink l"
      using y(1,2) by (simp add: wikiLink_def spec_wikiLink_def l)
    ultimately show ?thesis
      using y(4) by blast
  qed
qed

lemma extractLinks_refines: "extractLinks markdown = Some (spec_extractLinks markdown)"
proof -
  obtain mds where m: "matchAll mdLinkRegex markdown = Some mds"
    using matchAll_total [OF minLen_regexes(1)] by blast
  obtain wikis where w: "matchAll wikiLinkRegex markdown = Some wikis"
    using matchAll_total [OF minLen_regexes(2)] by blast
  from md_pass [of markdown] m
  have 1: "map mdLink mds = map spec_mdLink (spec_scan spec_mdLinkAt markdown)"
    by simp
  from wiki_pass [of markdown] w
  have 2: "map wikiLink wikis = map spec_wikiLink (spec_scan spec_wikiLinkAt markdown)"
    by simp
  show ?thesis
    by (simp add: extractLinks_def m w 1 2 spec_extractLinks_def)
qed

text \<open>The pass of the description, step by step.\<close>

lemma spec_scan_link:
  "linkAt s = Some (l, rest) \<Longrightarrow> length rest < length s \<Longrightarrow>
   spec_scan linkAt s = l # spec_scan linkAt rest"
  by (subst spec_scan.simps) simp

lemma spec_scan_move:
  "linkAt (c # cs) = None \<Longrightarrow> spec_scan linkAt (c # cs) = spec_scan linkAt cs"
  by (subst spec_scan.simps) simp

lemma spec_scan_end: "linkAt [] = None \<Longrightarrow> spec_scan linkAt [] = []"
  by (subst spec_scan.simps) simp

lemma spec_linkAt_Nil: "spec_mdLinkAt [] = None" "spec_wikiLinkAt [] = None"
  by (simp_all add: spec_mdLinkAt_def spec_wikiLinkAt_def)

lemma spec_linkAt_other:
  "c \<noteq> CHR ''['' \<Longrightarrow> spec_mdLinkAt (c # cs) = None"
  "c \<noteq> CHR ''['' \<Longrightarrow> spec_wikiLinkAt (c # cs) = None"
  by (simp_all add: spec_mdLinkAt_def spec_wikiLinkAt_def split: list.splits)

text \<open>
  C8. For every text, \<open>extractLinks\<close> returns, and what it returns is the markdown links of
  the text followed by its wiki links, each sequence being what one pass over the whole
  text collects: where a link of the form starts it is taken and the pass goes on behind it,
  elsewhere the pass moves on by one character. A markdown link is \<open>[text](url)\<close>, with no
  \<open>]\<close> in the text, and a url that is not empty and has no \<open>)\<close>; a wiki link is \<open>[[target]]\<close>
  or \<open>[[target|text]]\<close>, with a target that is not empty and has neither \<open>]\<close> nor \<open>|\<close>, and a
  text that is not empty and has no \<open>]\<close>; a wiki link without text has its target as text.
  \<open>[[a|B]]\<close> yields exactly one entry, with text \<open>B\<close>, url \<open>a\<close> and kind wiki. A bracket that
  starts no link does not stop a pass (\<open>[x] [y](z)\<close>), the markdown links come first whatever
  the order in the text, and the two passes are independent: in \<open>[x]([[y]])\<close> the first
  finds the markdown link with the url \<open>[[y]]\<close>, the second the wiki link inside it.
\<close>

theorem extractLinks_spec:
  "extractLinks markdown = Some (spec_extractLinks markdown) \<and>
   spec_extractLinks markdown =
     map spec_mdLink (spec_scan spec_mdLinkAt markdown) @
     map spec_wikiLink (spec_scan spec_wikiLinkAt markdown) \<and>
   (linkAt s = Some (l, rest) \<and> length rest < length s \<longrightarrow>
      spec_scan linkAt s = l # spec_scan linkAt rest) \<and>
   (linkAt (c # cs) = None \<longrightarrow> spec_scan linkAt (c # cs) = spec_scan linkAt cs) \<and>
   (linkAt [] = None \<longrightarrow> spec_scan linkAt [] = []) \<and>
   (spec_mdLinkAt s = Some ((t, u), rest) \<longleftrightarrow>
      s = ''['' @ t @ '']('' @ u @ '')'' @ rest \<and>
      CHR '']'' \<notin> set t \<and> u \<noteq> [] \<and> CHR '')'' \<notin> set u) \<and>
   (spec_wikiLinkAt s = Some ((t, None), rest) \<longleftrightarrow>
      s = ''[['' @ t @ '']]'' @ rest \<and>
      t \<noteq> [] \<and> (\<forall>c\<in>set t. c \<noteq> CHR '']'' \<and> c \<noteq> CHR ''|'')) \<and>
   (spec_wikiLinkAt s = Some ((t, Some x), rest) \<longleftrightarrow>
      s = ''[['' @ t @ ''|'' @ x @ '']]'' @ rest \<and>
      t \<noteq> [] \<and> (\<forall>c\<in>set t. c \<noteq> CHR '']'' \<and> c \<noteq> CHR ''|'') \<and> x \<noteq> [] \<and> CHR '']'' \<notin> set x) \<and>
   spec_mdLink (t, u) = \<lparr>link_text = Some t, url = Some u, link_type = Markdown\<rparr> \<and>
   spec_wikiLink (t, None) = \<lparr>link_text = Some t, url = Some t, link_type = Wiki\<rparr> \<and>
   spec_wikiLink (t, Some x) = \<lparr>link_text = Some x, url = Some t, link_type = Wiki\<rparr> \<and>
   extractLinks ''[[a|B]]'' = Some [\<lparr>link_text = Some ''B'', url = Some ''a'', link_type = Wiki\<rparr>] \<and>
   extractLinks ''[x] [y](z)''
     = Some [\<lparr>link_text = Some ''y'', url = Some ''z'', link_type = Markdown\<rparr>] \<and>
   extractLinks ''[[c]] [a](b) [[d|e]] [f](g)''
     = Some [\<lparr>link_text = Some ''a'', url = Some ''b'', link_type = Markdown\<rparr>,
             \<lparr>link_text = Some ''f'', url = Some ''g'', link_type = Markdown\<rparr>,
             \<lparr>link_text = Some ''c'', url = Some ''c'', link_type = Wiki\<rparr>,
             \<lparr>link_text = Some ''e'', url = Some ''d'', link_type = Wiki\<rparr>] \<and>
   extractLinks ''[x]([[y]])''
     = Some [\<lparr>link_text = Some ''x'', url = Some ''[[y]]'', link_type = Markdown\<rparr>,
             \<lparr>link_text = Some ''y'', url = Some ''y'', link_type = Wiki\<rparr>]"
  (is "?R \<and> ?S \<and> ?L \<and> ?M \<and> ?N \<and> ?MD \<and> ?WP \<and> ?WT \<and> ?K1 \<and> ?K2 \<and> ?K3
       \<and> ?E1 \<and> ?E2 \<and> ?E3 \<and> ?E4")
proof -
  have r: ?R
    by (rule extractLinks_refines)
  have s: ?S
    by (simp add: spec_extractLinks_def)
  have l: ?L
    using spec_scan_link [of linkAt s l rest] by blast
  have m: ?M
    using spec_scan_move [of linkAt c cs] by blast
  have n: ?N
    using spec_scan_end [of linkAt] by blast
  have md: ?MD
  proof
    assume a: "spec_mdLinkAt s = Some ((t, u), rest)"
    show "s = ''['' @ t @ '']('' @ u @ '')'' @ rest \<and>
      CHR '']'' \<notin> set t \<and> u \<noteq> [] \<and> CHR '')'' \<notin> set u"
      using spec_mdLinkAt_SomeD [OF a] by simp
  next
    assume "s = ''['' @ t @ '']('' @ u @ '')'' @ rest \<and>
      CHR '']'' \<notin> set t \<and> u \<noteq> [] \<and> CHR '')'' \<notin> set u"
    then show "spec_mdLinkAt s = Some ((t, u), rest)"
      using spec_mdLinkAt_form [of t u rest] by simp
  qed
  have wp: ?WP
  proof
    assume a: "spec_wikiLinkAt s = Some ((t, None), rest)"
    show "s = ''[['' @ t @ '']]'' @ rest \<and>
      t \<noteq> [] \<and> (\<forall>c\<in>set t. c \<noteq> CHR '']'' \<and> c \<noteq> CHR ''|'')"
      using spec_wikiLinkAt_SomeD [OF a] by simp
  next
    assume "s = ''[['' @ t @ '']]'' @ rest \<and>
      t \<noteq> [] \<and> (\<forall>c\<in>set t. c \<noteq> CHR '']'' \<and> c \<noteq> CHR ''|'')"
    then show "spec_wikiLinkAt s = Some ((t, None), rest)"
      using spec_wikiLinkAt_plain [of t rest] by simp
  qed
  have wt: ?WT
  proof
    assume a: "spec_wikiLinkAt s = Some ((t, Some x), rest)"
    show "s = ''[['' @ t @ ''|'' @ x @ '']]'' @ rest \<and>
      t \<noteq> [] \<and> (\<forall>c\<in>set t. c \<noteq> CHR '']'' \<and> c \<noteq> CHR ''|'') \<and> x \<noteq> [] \<and> CHR '']'' \<notin> set x"
      using spec_wikiLinkAt_SomeD [OF a] by simp
  next
    assume "s = ''[['' @ t @ ''|'' @ x @ '']]'' @ rest \<and>
      t \<noteq> [] \<and> (\<forall>c\<in>set t. c \<noteq> CHR '']'' \<and> c \<noteq> CHR ''|'') \<and> x \<noteq> [] \<and> CHR '']'' \<notin> set x"
    then show "spec_wikiLinkAt s = Some ((t, Some x), rest)"
      using spec_wikiLinkAt_text [of t x rest] by simp
  qed
  have k1: ?K1 and k2: ?K2 and k3: ?K3
    by (simp_all add: spec_mdLink_def spec_wikiLink_def)
  have e1: ?E1
    unfolding extractLinks_refines spec_extractLinks_def
    by (simp add: spec_scan.simps spec_mdLinkAt_def spec_wikiLinkAt_def spec_upTo_def
        spec_mdLink_def spec_wikiLink_def)
  have e2: ?E2
    unfolding extractLinks_refines spec_extractLinks_def
    by (simp add: spec_scan.simps spec_mdLinkAt_def spec_wikiLinkAt_def spec_upTo_def
        spec_mdLink_def spec_wikiLink_def)
  have e3: ?E3
    unfolding extractLinks_refines spec_extractLinks_def
    by (simp add: spec_scan.simps spec_mdLinkAt_def spec_wikiLinkAt_def spec_upTo_def
        spec_mdLink_def spec_wikiLink_def)
  have e4: ?E4
    unfolding extractLinks_refines spec_extractLinks_def
    by (simp add: spec_scan.simps spec_mdLinkAt_def spec_wikiLinkAt_def spec_upTo_def
        spec_mdLink_def spec_wikiLink_def)
  show ?thesis
    by (intro conjI r s l m n md wp wt k1 k2 k3 e1 e2 e3 e4)
qed

theorem extractLinks_spec_witness:
  "extractLinks ''see [docs](/docs/api) and [[Home]]''
     = Some [\<lparr>link_text = Some ''docs'', url = Some ''/docs/api'', link_type = Markdown\<rparr>,
             \<lparr>link_text = Some ''Home'', url = Some ''Home'', link_type = Wiki\<rparr>] \<and>
   spec_wikiLinkAt ''[[Home]]'' = Some ((''Home'', None), []) \<and>
   spec_scan spec_wikiLinkAt ''[[Home]]'' = [(''Home'', None)] \<and>
   spec_scan spec_wikiLinkAt ''x'' = []"
proof -
  have 1: "spec_extractLinks ''see [docs](/docs/api) and [[Home]]''
     = [\<lparr>link_text = Some ''docs'', url = Some ''/docs/api'', link_type = Markdown\<rparr>,
        \<lparr>link_text = Some ''Home'', url = Some ''Home'', link_type = Wiki\<rparr>]"
    by (simp add: spec_extractLinks_def spec_scan.simps spec_mdLinkAt_def spec_wikiLinkAt_def
        spec_upTo_def spec_mdLink_def spec_wikiLink_def)
  have 2: "spec_wikiLinkAt [] = None" "spec_wikiLinkAt ''x'' = None"
    by (simp_all add: spec_wikiLinkAt_def)
  note inst = extractLinks_spec [where markdown = "''see [docs](/docs/api) and [[Home]]''"
      and linkAt = spec_wikiLinkAt and s = "''[[Home]]''" and l = "(''Home'', None)"
      and rest = "[]" and c = "CHR ''x''" and cs = "[]" and t = "''Home''" and u = "''u''"
      and x = "''x''"]
  have 3: "extractLinks ''see [docs](/docs/api) and [[Home]]''
     = Some [\<lparr>link_text = Some ''docs'', url = Some ''/docs/api'', link_type = Markdown\<rparr>,
             \<lparr>link_text = Some ''Home'', url = Some ''Home'', link_type = Wiki\<rparr>]"
    using inst by (simp only: 1)
  have 4: "spec_wikiLinkAt ''[[Home]]'' = Some ((''Home'', None), [])"
    using inst by simp
  have 5: "spec_scan spec_wikiLinkAt [] = []"
    using inst 2 by simp
  have 6: "spec_scan spec_wikiLinkAt ''x'' = []"
    using inst 2 5 by simp
  have 7: "spec_scan spec_wikiLinkAt ''[[Home]]'' = [(''Home'', None)]"
    using inst 4 5 by simp
  show ?thesis
    by (intro conjI 3 4 7 6)
qed

section \<open>Properties of similarity\<close>




















end
